theory Spec2Isabelle
  imports Complex_Main "HOL-Library.Multiset"
begin

section \<open>The evolutionary sparse layer of \<^verbatim>\<open>synapses/SET_layer.py\<close>\<close>

text \<open>
  The class \<^verbatim>\<open>SETLayer\<close> keeps a flat weight vector, one connection pair
  (input index, output index) per weight slot, and a padded gather table (\<^verbatim>\<open>zmap\<close>)
  used by \<^verbatim>\<open>forward\<close>. The embedding below follows the source method by method.

  Conventions of the embedding.
  \<^item> Python integers are \<open>int\<close>; tensor indices and lengths, which cannot be negative
    where they occur, are \<open>nat\<close>.
  \<^item> Real-valued tensor data (weights, bias, inputs, \<^verbatim>\<open>zeta\<close>, \<^verbatim>\<open>sparsity\<close>) is
    idealised as \<open>real\<close>: rounding of floating-point arithmetic on such data, NaN and
    infinities are outside the model. Where an \<^emph>\<open>integer\<close> is pushed through a
    \<^verbatim>\<open>float32\<close> tensor (the padding value of \<^verbatim>\<open>generate_zmap\<close>), the conversion is
    written out, because it can change the integer.
  \<^item> An exception is a value \<open>Inl e\<close> of a sum type. The object's state after an
    exception is not modelled: a result \<open>Inl e\<close> carries no layer.
  \<^item> The global random generator of torch is an explicit argument: two tapes of raw
    draws with a read position each. \<^verbatim>\<open>torch.randint(high, size)\<close> reads raw naturals
    and reduces them modulo \<open>high\<close>, so every outcome in \<open>[0, high)\<close> can be produced
    and no other; \<^verbatim>\<open>torch.randn\<close> reads standard-normal samples.
  \<^item> The retry of \<^verbatim>\<open>generate_connections\<close> is unbounded recursion, so the method is
    a partial function: the value \<open>None\<close> means that the call does not return. (The
    call-stack limit of the interpreter is not modelled.)
\<close>

subsection \<open>Errors, the random generator, the layer object\<close>

datatype error =
    ZeroDivisionError   \<comment> \<open>Python: division by zero\<close>
  | ValueError          \<comment> \<open>Python: \<^verbatim>\<open>math.sqrt\<close> of a negative number\<close>
  | TypeError           \<comment> \<open>Python: an operation on \<^verbatim>\<open>None\<close>\<close>
  | IndexError          \<comment> \<open>torch: index out of range\<close>
  | RuntimeError        \<comment> \<open>torch: bad size, bad range, empty \<^verbatim>\<open>cat\<close>, bad \<^verbatim>\<open>k\<close>, shape mismatch\<close>
  | ConfigError         \<comment> \<open>named by the specification only; no source path raises it\<close>
  | GenerationExhausted \<comment> \<open>named by the specification only; no source path raises it\<close>
  | DimensionMismatch   \<comment> \<open>named by the specification only; no source path raises it\<close>

record rng =
  ints :: "nat \<Rightarrow> nat"
  normals :: "nat \<Rightarrow> real"
  ipos :: nat
  npos :: nat

record layer =
  indim :: int
  outdim :: int
  epsilon :: real
  zeta :: real
  sparsity :: real
  n_params :: int
  marked_indices :: "nat list option"
  connections :: "(nat \<times> nat) list option"
  zmap :: "nat list list"
  weight :: "real list"
  bias :: "real list option"

text \<open>Python's \<^verbatim>\<open>int(x)\<close> on a float truncates toward zero.\<close>

definition py_int :: "real \<Rightarrow> int" where
  "py_int x = (if 0 \<le> x then \<lfloor>x\<rfloor> else \<lceil>x\<rceil>)"

text \<open>
  \<^verbatim>\<open>torch.randint(high, size=(m,))\<close>: fails on a negative size and on an empty range
  \<open>[0, high)\<close>; otherwise \<open>m\<close> draws below \<open>high\<close>.
\<close>

definition randint :: "int \<Rightarrow> int \<Rightarrow> rng \<Rightarrow> error + (nat list \<times> rng)" where
  "randint high m g =
     (if m < 0 \<or> high \<le> 0 then Inl RuntimeError
      else Inr (map (\<lambda>j. ints g (ipos g + j) mod nat high) [0..<nat m],
                g\<lparr>ipos := ipos g + nat m\<rparr>))"

text \<open>\<^verbatim>\<open>torch.randn(m)\<close>: \<open>m\<close> standard-normal samples.\<close>

definition randn :: "int \<Rightarrow> rng \<Rightarrow> error + (real list \<times> rng)" where
  "randn m g =
     (if m < 0 then Inl RuntimeError
      else Inr (map (\<lambda>j. normals g (npos g + j)) [0..<nat m],
                g\<lparr>npos := npos g + nat m\<rparr>))"

text \<open>
  \<^verbatim>\<open>math.sqrt(2/self.indim)\<close>, the standard deviation of the initialiser.
\<close>

definition stdv_of :: "int \<Rightarrow> error + real" where
  "stdv_of d =
     (if d = 0 then Inl ZeroDivisionError
      else if d < 0 then Inl ValueError
      else Inr (sqrt (2 / real_of_int d)))"

text \<open>
  Assignment through an index tensor, \<^verbatim>\<open>a[indices] = values\<close>: an index outside the
  array raises; the writes happen in order (for a repeated index the last one stays).
\<close>

definition index_put :: "'a list \<Rightarrow> nat list \<Rightarrow> 'a list \<Rightarrow> error + 'a list" where
  "index_put a idx vals =
     (if \<exists>i \<in> set idx. length a \<le> i then Inl IndexError
      else if length vals \<noteq> length idx then Inl RuntimeError
      else Inr (fold (\<lambda>(i, v) acc. acc[i := v]) (zip idx vals) a))"

subsection \<open>\<^verbatim>\<open>generate_connections\<close> and \<^verbatim>\<open>grow_connections\<close>\<close>

text \<open>
  One sampling attempt, lines 121 to 133 of the source: the set \<open>t\<close> of pairs in use, the
  oversampled candidates (\<^verbatim>\<open>int(n_connections*1.5)\<close> of them), their deduplication
  through a Python \<^verbatim>\<open>set\<close> and the removal of the pairs in use. The iteration order of a
  Python set is not specified; \<open>remdups\<close> fixes one order. \<^verbatim>\<open>torch.cat\<close> of an empty
  list raises.
\<close>

definition sample_new_locs :: "layer \<Rightarrow> int \<Rightarrow> rng \<Rightarrow> error + ((nat \<times> nat) list \<times> rng)" where
  "sample_new_locs self n_connections g =
     (let t = (case connections self of None \<Rightarrow> [] | Some c \<Rightarrow> c);
          m = py_int (real_of_int n_connections * 1.5)
      in case randint (indim self) m g of
           Inl e \<Rightarrow> Inl e
         | Inr (iidx, g1) \<Rightarrow>
             (case randint (outdim self) m g1 of
                Inl e \<Rightarrow> Inl e
              | Inr (oidx, g2) \<Rightarrow>
                  (let t' = remdups (zip iidx oidx);
                       new_locs = filter (\<lambda>tup. tup \<notin> set t) t'
                   in if new_locs = [] then Inl RuntimeError
                      else Inr (new_locs, g2))))"

partial_function (option) generate_connections ::
  "layer \<Rightarrow> int \<Rightarrow> rng \<Rightarrow> (error + ((nat \<times> nat) list \<times> rng)) option" where
  "generate_connections self n_connections g =
     (case sample_new_locs self n_connections g of
        Inl e \<Rightarrow> Some (Inl e)
      | Inr (new_locs, g') \<Rightarrow>
          if int (length new_locs) < n_connections
          then generate_connections self n_connections g'
          else Some (Inr (take (nat n_connections) new_locs, g')))"

text \<open>
  \<^verbatim>\<open>grow_connections(indices=None)\<close>: all connections when \<open>indices\<close> is \<open>None\<close>,
  otherwise fresh connections written at the given slots.
\<close>

definition grow_connections ::
  "layer \<Rightarrow> nat list option \<Rightarrow> rng \<Rightarrow> (error + (layer \<times> rng)) option" where
  "grow_connections self indices g =
     (let n_connections = (case indices of None \<Rightarrow> n_params self
                                          | Some ix \<Rightarrow> int (length ix))
      in case generate_connections self n_connections g of
           None \<Rightarrow> None
         | Some (Inl e) \<Rightarrow> Some (Inl e)
         | Some (Inr (conns, g')) \<Rightarrow>
             (case indices of
                None \<Rightarrow> Some (Inr (self\<lparr>connections := Some conns\<rparr>, g'))
              | Some ix \<Rightarrow>
                  (case connections self of
                     None \<Rightarrow> Some (Inl TypeError)
                   | Some c \<Rightarrow>
                       (case index_put c ix conns of
                          Inl e \<Rightarrow> Some (Inl e)
                        | Inr c' \<Rightarrow> Some (Inr (self\<lparr>connections := Some c'\<rparr>, g'))))))"

subsection \<open>\<^verbatim>\<open>generate_zmap\<close>\<close>

text \<open>
  The padding value is computed as \<^verbatim>\<open>(torch.ones((outdim, longest)) * n_params).int()\<close>.
  \<^verbatim>\<open>torch.ones\<close> is a \<^verbatim>\<open>float32\<close> tensor and stays one when multiplied by a Python
  integer, so the padding value is \<open>n_params\<close> rounded to the nearest number with a
  24-bit significand (ties to even) before it is converted back to an integer. Slot
  indices written into the table afterwards are integers throughout. (Values beyond
  the range of \<^verbatim>\<open>int32\<close> are not modelled, and \<open>n_params\<close> is positive whenever
  connections have been generated.)
\<close>

fun bitlen :: "nat \<Rightarrow> nat" where
  "bitlen n = (if n = 0 then 0 else Suc (bitlen (n div 2)))"

declare bitlen.simps [simp del]

definition float32_round :: "nat \<Rightarrow> nat" where
  "float32_round n =
     (if bitlen n \<le> 24 then n
      else let e = bitlen n - 24; q = n div 2 ^ e; r = n mod 2 ^ e; h = 2 ^ (e - 1)
           in (if h < r \<or> (r = h \<and> odd q) then q + 1 else q) * 2 ^ e)"

definition fan_in :: "(nat \<times> nat) list \<Rightarrow> nat \<Rightarrow> nat list" where
  \<comment> \<open>\<^verbatim>\<open>torch.nonzero(self.connections[:, 1] == i)\<close>: the slots that target output \<open>i\<close>, ascending\<close>
  "fan_in c i = filter (\<lambda>s. snd (c ! s) = i) [0..<length c]"

definition generate_zmap :: "layer \<Rightarrow> error + layer" where
  "generate_zmap self =
     (if outdim self < 0 then Inl RuntimeError
      else if outdim self = 0 then Inr (self\<lparr>zmap := []\<rparr>)
      else case connections self of
             None \<Rightarrow> Inl TypeError
           | Some c \<Rightarrow>
               (let z_map = map (fan_in c) [0..<nat (outdim self)];
                    longest = fold (\<lambda>indcs l. max l (length indcs)) z_map 0;
                    pad = float32_round (nat (n_params self));
                    z_inds = map (\<lambda>inds. inds @ replicate (longest - length inds) pad) z_map
                in Inr (self\<lparr>zmap := z_inds\<rparr>)))"

subsection \<open>Construction\<close>

definition reset_parameters :: "layer \<Rightarrow> rng \<Rightarrow> error + (layer \<times> rng)" where
  "reset_parameters self g =
     (case stdv_of (indim self) of
        Inl e \<Rightarrow> Inl e
      | Inr stdv \<Rightarrow>
          (case randn (n_params self) g of
             Inl e \<Rightarrow> Inl e
           | Inr (zs, g1) \<Rightarrow>
               (let self1 = self\<lparr>weight := map (\<lambda>z. z * stdv) zs\<rparr>
                in case bias self1 of
                     None \<Rightarrow> Inr (self1, g1)
                   | Some _ \<Rightarrow>
                       (case randn (outdim self1) g1 of
                          Inl e \<Rightarrow> Inl e
                        | Inr (bs, g2) \<Rightarrow>
                            Inr (self1\<lparr>bias := Some (map (\<lambda>z. z * stdv) bs)\<rparr>, g2)))))"

text \<open>
  The sparsity of lines 79 to 87. With no explicit sparsity the density is a quotient by
  \<open>indim * outdim\<close>, which Python refuses to compute when that product is zero.
\<close>

definition derive_sparsity :: "int \<Rightarrow> int \<Rightarrow> real \<Rightarrow> real option \<Rightarrow> error + real" where
  "derive_sparsity in_features out_features eps sp =
     (case sp of
        Some s \<Rightarrow> Inr s
      | None \<Rightarrow>
          if in_features * out_features = 0 then Inl ZeroDivisionError
          else let density = (eps * real_of_int (in_features + out_features))
                               / real_of_int (in_features * out_features);
                   s = 1 - density
               in Inr (if s > 1 then 0.9 else s))"

text \<open>
  \<^verbatim>\<open>__init__\<close>. Before they are assigned, \<^verbatim>\<open>zmap\<close> and \<^verbatim>\<open>weight\<close> do not exist on the
  Python object; here they are empty lists. The uninitialised tensors of lines 95 and 97
  are overwritten by \<^verbatim>\<open>reset_parameters\<close> before anything reads them.
\<close>

definition SETLayer_init ::
  "int \<Rightarrow> int \<Rightarrow> real \<Rightarrow> real option \<Rightarrow> real \<Rightarrow> bool \<Rightarrow> rng \<Rightarrow> (error + (layer \<times> rng)) option" where
  "SETLayer_init in_features out_features eps sp zt with_bias g =
     (case derive_sparsity in_features out_features eps sp of
        Inl e \<Rightarrow> Some (Inl e)
      | Inr s \<Rightarrow>
          (let self0 = \<lparr>indim = in_features, outdim = out_features, epsilon = eps,
                        zeta = zt, sparsity = s,
                        n_params = py_int (real_of_int (in_features * out_features) * (1 - s)),
                        marked_indices = None, connections = None, zmap = [],
                        weight = [], bias = None\<rparr>
           in case grow_connections self0 None g of
                None \<Rightarrow> None
              | Some (Inl e) \<Rightarrow> Some (Inl e)
              | Some (Inr (self1, g1)) \<Rightarrow>
                  (case generate_zmap self1 of
                     Inl e \<Rightarrow> Some (Inl e)
                   | Inr self2 \<Rightarrow>
                       (let self3 = self2\<lparr>weight := replicate (nat (n_params self2)) 0,
                                          bias := (if with_bias
                                                   then Some (replicate (nat out_features) 0)
                                                   else None)\<rparr>
                        in Some (reset_parameters self3 g1)))))"

subsection \<open>Selection of the slots to retire\<close>

text \<open>
  \<^verbatim>\<open>torch.topk(tens, k, largest)\<close>, indices only. \<open>k\<close> outside \<open>[0, len]\<close> raises. Which
  of several equal values is taken is not specified by torch; the stable sort of the model
  takes the one with the smaller index.
\<close>

definition topk :: "real list \<Rightarrow> int \<Rightarrow> bool \<Rightarrow> error + nat list" where
  "topk tens k largest =
     (if k < 0 \<or> int (length tens) < k then Inl RuntimeError
      else Inr (take (nat k)
                  (sort_key (\<lambda>i. if largest then - (tens ! i) else tens ! i)
                     [0..<length tens])))"

definition mask_of :: "nat \<Rightarrow> nat list \<Rightarrow> int list" where
  \<comment> \<open>\<^verbatim>\<open>m = torch.zeros_like(tens).int(); m[inds] = 1\<close>\<close>
  "mask_of n inds = map (\<lambda>i. if i \<in> set inds then 1 else 0) [0..<n]"

definition nonzero :: "int list \<Rightarrow> nat list" where
  \<comment> \<open>\<^verbatim>\<open>torch.nonzero(m).reshape(-1)\<close>: the positions of the non-zero entries, ascending\<close>
  "nonzero m = filter (\<lambda>i. m ! i \<noteq> 0) [0..<length m]"

definition mark_connections :: "layer \<Rightarrow> error + nat list" where
  "mark_connections self =
     (let tens = weight self;
          pos = map (\<lambda>w. if w > 0 then 1 else 0 :: int) tens;
          numpos = sum_list pos;
          neg = map (\<lambda>w. if w < 0 then 1 else 0 :: int) tens;
          numneg = sum_list neg;
          neg_tokill = py_int (real_of_int numneg * zeta self);
          neg_k = neg_tokill + numpos;
          pos_tokill = py_int (real_of_int numpos * zeta self);
          pos_k = pos_tokill + numneg
      in case topk tens neg_k True of
           Inl e \<Rightarrow> Inl e
         | Inr inds_neg \<Rightarrow>
             (let kill_neg = mask_of (length tens) inds_neg;
                  to_kill_neg = map2 (*) neg kill_neg
              in case topk tens pos_k False of
                   Inl e \<Rightarrow> Inl e
                 | Inr inds_pos \<Rightarrow>
                     (let kill_pos = mask_of (length tens) inds_pos;
                          to_kill_pos = map2 (*) pos kill_pos;
                          all_to_kill = map2 (+) to_kill_neg to_kill_pos
                      in Inr (nonzero all_to_kill))))"

subsection \<open>\<^verbatim>\<open>zero_connections\<close> and \<^verbatim>\<open>evolve_connections\<close>\<close>

definition kill_parameters :: "layer \<Rightarrow> nat list \<Rightarrow> error + layer" where
  "kill_parameters self indices =
     (case index_put (weight self) indices (replicate (length indices) 0) of
        Inl e \<Rightarrow> Inl e
      | Inr w \<Rightarrow> Inr (self\<lparr>weight := w\<rparr>))"

definition zero_connections :: "layer \<Rightarrow> error + layer" where
  "zero_connections self =
     (case mark_connections self of
        Inl e \<Rightarrow> Inl e
      | Inr indices \<Rightarrow>
          (case kill_parameters self indices of
             Inl e \<Rightarrow> Inl e
           | Inr self1 \<Rightarrow> Inr (self1\<lparr>marked_indices := Some indices\<rparr>)))"

text \<open>
  The slots that \<^verbatim>\<open>evolve_connections\<close> works on (lines 193 to 196), and their new
  weights (lines 197 to 201).
\<close>

definition evolve_indices :: "layer \<Rightarrow> error + nat list" where
  "evolve_indices self =
     (case marked_indices self of
        None \<Rightarrow> mark_connections self
      | Some ix \<Rightarrow> Inr ix)"

definition evolve_values :: "layer \<Rightarrow> bool \<Rightarrow> nat \<Rightarrow> rng \<Rightarrow> error + (real list \<times> rng)" where
  "evolve_values self init n g =
     (if init then
        (case stdv_of (indim self) of
           Inl e \<Rightarrow> Inl e
         | Inr stdv \<Rightarrow>
             (case randn (int n) g of
                Inl e \<Rightarrow> Inl e
              | Inr (zs, g1) \<Rightarrow> Inr (map (\<lambda>z. z * stdv) zs, g1)))
      else Inr (replicate n 0, g))"

definition evolve_connections ::
  "layer \<Rightarrow> bool \<Rightarrow> rng \<Rightarrow> (error + (layer \<times> rng)) option" where
  "evolve_connections self init g =
     (case evolve_indices self of
        Inl e \<Rightarrow> Some (Inl e)
      | Inr indices \<Rightarrow>
          (case evolve_values self init (length indices) g of
             Inl e \<Rightarrow> Some (Inl e)
           | Inr (new_values, g1) \<Rightarrow>
               (case index_put (weight self) indices new_values of
                  Inl e \<Rightarrow> Some (Inl e)
                | Inr w \<Rightarrow>
                    (case grow_connections (self\<lparr>weight := w\<rparr>) (Some indices) g1 of
                       None \<Rightarrow> None
                     | Some (Inl e) \<Rightarrow> Some (Inl e)
                     | Some (Inr (self1, g2)) \<Rightarrow>
                         (case generate_zmap self1 of
                            Inl e \<Rightarrow> Some (Inl e)
                          | Inr self2 \<Rightarrow> Some (Inr (self2, g2)))))))"

subsection \<open>\<^verbatim>\<open>forward\<close>\<close>

text \<open>
  The input is a batch of rows. Each tensor operation of \<^verbatim>\<open>forward\<close> is applied to the
  whole batch before the next one, and it raises when it raises on some row. Indexing a
  row by an index tensor raises on an index outside the row. The elementwise operations
  broadcast as torch does: equal lengths, or one side of length one.
\<close>

fun traverse :: "('a \<Rightarrow> error + 'b) \<Rightarrow> 'a list \<Rightarrow> error + 'b list" where
  "traverse f [] = Inr []"
| "traverse f (x # xs) =
     (case f x of
        Inl e \<Rightarrow> Inl e
      | Inr y \<Rightarrow> (case traverse f xs of Inl e \<Rightarrow> Inl e | Inr ys \<Rightarrow> Inr (y # ys)))"

definition gather :: "real list \<Rightarrow> nat list \<Rightarrow> error + real list" where
  \<comment> \<open>\<^verbatim>\<open>row[inds]\<close>\<close>
  "gather row inds =
     (if \<forall>i \<in> set inds. i < length row then Inr (map (\<lambda>i. row ! i) inds)
      else Inl IndexError)"

definition broadcast :: "(real \<Rightarrow> real \<Rightarrow> real) \<Rightarrow> real list \<Rightarrow> real list \<Rightarrow> error + real list" where
  "broadcast f a b =
     (if length a = length b then Inr (map2 f a b)
      else if length b = 1 then Inr (map (\<lambda>u. f u (b ! 0)) a)
      else if length a = 1 then Inr (map (\<lambda>v. f (a ! 0) v) b)
      else Inl RuntimeError)"

definition forward :: "layer \<Rightarrow> real list list \<Rightarrow> error + real list list" where
  "forward self x =
     (case connections self of
        None \<Rightarrow> Inl TypeError
      | Some c \<Rightarrow>
          (let inds = map fst c
           in case traverse (\<lambda>row. gather row inds) x of
                Inl e \<Rightarrow> Inl e
              | Inr k0 \<Rightarrow>
                  (case traverse (\<lambda>row. broadcast (*) row (weight self)) k0 of
                     Inl e \<Rightarrow> Inl e
                   | Inr k1 \<Rightarrow>
                       (let k = map (\<lambda>row. row @ [0]) k1
                        in case traverse (\<lambda>row. traverse (gather row) (zmap self)) k of
                             Inl e \<Rightarrow> Inl e
                           | Inr zmat \<Rightarrow>
                               (let z = map (map sum_list) zmat
                                in case bias self of
                                     None \<Rightarrow> Inl TypeError
                                   | Some b \<Rightarrow> traverse (\<lambda>row. broadcast (+) row b) z)))))"

subsection \<open>Notions used in the statements\<close>

text \<open>
  The counts of line 150 and line 153, and the set that the masks of lines 161 to 172
  describe: the negative slots among \<open>inds_neg\<close> and the positive slots among
  \<open>inds_pos\<close>, in ascending order.
\<close>

definition numpos :: "real list \<Rightarrow> nat" where
  "numpos tens = length (filter (\<lambda>w. 0 < w) tens)"

definition numneg :: "real list \<Rightarrow> nat" where
  "numneg tens = length (filter (\<lambda>w. w < 0) tens)"

definition marked_by :: "real list \<Rightarrow> nat list \<Rightarrow> nat list \<Rightarrow> nat list" where
  "marked_by tens inds_neg inds_pos =
     filter (\<lambda>i. (tens ! i < 0 \<and> i \<in> set inds_neg) \<or> (0 < tens ! i \<and> i \<in> set inds_pos))
       [0..<length tens]"

text \<open>
  The pairs in use, and what a list of new pairs has to satisfy: as many as requested,
  no pair twice, none in use, every index in range.
\<close>

definition in_use :: "layer \<Rightarrow> (nat \<times> nat) set" where
  "in_use self = (case connections self of None \<Rightarrow> {} | Some c \<Rightarrow> set c)"

definition fresh_pairs :: "layer \<Rightarrow> int \<Rightarrow> (nat \<times> nat) list \<Rightarrow> bool" where
  "fresh_pairs self n conns \<longleftrightarrow>
     distinct conns \<and> int (length conns) = n \<and> 0 < n \<and> 0 < indim self \<and> 0 < outdim self \<and>
     (\<forall>p \<in> set conns. p \<notin> in_use self \<and> int (fst p) < indim self \<and> int (snd p) < outdim self)"



text \<open>
  The invariant of the connection table: \<open>n_params\<close> entries, no pair twice, every index
  in range.
\<close>

definition connections_ok :: "layer \<Rightarrow> bool" where
  "connections_ok self \<longleftrightarrow>
     (case connections self of
        None \<Rightarrow> False
      | Some c \<Rightarrow>
          int (length c) = n_params self \<and> distinct c \<and>
          (\<forall>p \<in> set c. int (fst p) < indim self \<and> int (snd p) < outdim self))"

text \<open>
  A layer on which \<^verbatim>\<open>forward\<close> can be evaluated: its connection table is in order, it has
  one weight per connection, its \<^verbatim>\<open>zmap\<close> is the one \<^verbatim>\<open>generate_zmap\<close> builds from its
  connections, its bias (if any) has one entry per output, and it has at most \<open>2\<^sup>2\<^sup>4\<close>
  weight slots, so that the padding value of \<^verbatim>\<open>generate_zmap\<close> is exact.
\<close>

definition evaluable :: "layer \<Rightarrow> bool" where
  "evaluable self \<longleftrightarrow>
     connections_ok self \<and> 0 < n_params self \<and> n_params self \<le> 16777216 \<and>
     int (length (weight self)) = n_params self \<and>
     generate_zmap self = Inr self \<and>
     (case bias self of None \<Rightarrow> True | Some b \<Rightarrow> int (length b) = outdim self)"

text \<open>
  The largest fan-in over the outputs \<open>0, \<dots>, d - 1\<close>, and the value that the
  specification gives for an output: the sum of input times weight over the slots that
  target it.
\<close>

definition max_fan_in :: "(nat \<times> nat) list \<Rightarrow> nat \<Rightarrow> nat" where
  "max_fan_in c d = Max ((\<lambda>i. length (fan_in c i)) ` {0..<d})"

definition slot_sum :: "(nat \<times> nat) list \<Rightarrow> real list \<Rightarrow> real list \<Rightarrow> nat \<Rightarrow> real" where
  "slot_sum c w row i = (\<Sum>s \<leftarrow> fan_in c i. row ! fst (c ! s) * w ! s)"

subsection \<open>Example layers and generators\<close>

text \<open>
  Two generators: \<open>g0\<close>, whose integer tape starts \<open>2, 2, 1, 3, 4, 5, \<dots>\<close> and whose
  normal tape is \<open>1, 2, 3, \<dots>\<close>; and \<open>g_stuck\<close>, which draws the integer 2 for ever.
\<close>

definition g0 :: rng where
  "g0 = \<lparr>ints = (\<lambda>i. if i < 2 then 2 else if i = 2 then 1 else i),
          normals = (\<lambda>i. real i + 1), ipos = 0, npos = 0\<rparr>"


text \<open>
  \<open>Lc\<close>: three inputs, three outputs, five of the nine pairs in use. \<open>Lz\<close> is \<open>Lc\<close>
  after \<^verbatim>\<open>zero_connections()\<close>, \<open>Lc_evolved\<close> is \<open>Lc\<close> after
  \<^verbatim>\<open>evolve_connections(init=False)\<close> with the generator \<open>g0\<close>.
\<close>

definition Lc :: layer where
  "Lc = \<lparr>indim = 3, outdim = 3, epsilon = 11, zeta = 1/2, sparsity = 4/9, n_params = 5,
          marked_indices = None,
          connections = Some [(0, 0), (1, 0), (0, 1), (1, 1), (0, 2)],
          zmap = [[0, 1], [2, 3], [4, 5]],
          weight = [1, 2, 3, 4, -1], bias = Some [0, 0, 0]\<rparr>"

definition Lz :: layer where
  "Lz = Lc\<lparr>weight := [0, 0, 3, 4, -1], marked_indices := Some [0, 1]\<rparr>"

definition Lc_evolved :: layer where
  "Lc_evolved = Lc\<lparr>weight := [0, 0, 3, 4, -1],
                    connections := Some [(2, 0), (2, 1), (0, 1), (1, 1), (0, 2)],
                    zmap := [[0, 5, 5], [1, 2, 3], [4, 5, 5]]\<rparr>"

text \<open>
  \<open>Linit\<close>: the layer that \<^verbatim>\<open>SETLayer(3, 3, sparsity=4/9, zeta=0.5)\<close> builds with the
  generator \<open>g0\<close>.
\<close>

definition Linit :: layer where
  "Linit = \<lparr>indim = 3, outdim = 3, epsilon = 11, zeta = 1/2, sparsity = 4/9, n_params = 5,
             marked_indices = None,
             connections = Some [(2, 1), (2, 2), (1, 0), (1, 2), (2, 0)],
             zmap = [[2, 4], [0, 5], [1, 3]],
             weight = map (\<lambda>z. z * sqrt (2 / 3)) [1, 2, 3, 4, 5],
             bias = Some (map (\<lambda>z. z * sqrt (2 / 3)) [6, 7, 8])\<rparr>"

text \<open>
  \<open>Lbig\<close>: a layer of \<open>2\<^sup>2\<^sup>4 + 1\<close> weight slots as \<^verbatim>\<open>__init__\<close> holds it when it calls
  \<^verbatim>\<open>generate_zmap\<close> (weights and bias are assigned later), for
  \<^verbatim>\<open>SETLayer(16777217, 2, sparsity=0.5)\<close> with the connections \<open>(s, s mod 2)\<close>.
\<close>

definition Cbig :: "(nat \<times> nat) list" where
  "Cbig = map (\<lambda>s. (s, s mod 2)) [0..<16777217]"

definition Lbig :: layer where
  "Lbig = \<lparr>indim = 16777217, outdim = 2, epsilon = 11, zeta = 3/10, sparsity = 1/2,
            n_params = 16777217, marked_indices = None, connections = Some Cbig,
            zmap = [], weight = [], bias = None\<rparr>"

section \<open>Properties of the embedding\<close>

subsection \<open>Lists: counting, sorted prefixes, indexed assignment\<close>

lemma sum_list_indicator:
  "sum_list (map (\<lambda>w. if P w then 1 else 0 :: int) ws) = int (length (filter P ws))"
  by (induction ws) auto

lemma sum_list_replicate_zero: "sum_list (replicate k (0::real)) = 0"
  by (induction k) auto

lemma nth_map2:
  "i < length xs \<Longrightarrow> i < length ys \<Longrightarrow> map2 f xs ys ! i = f (xs ! i) (ys ! i)"
  by simp







lemma fold_max_length:
  "fold (\<lambda>indcs l. max l (length indcs)) xs a = Max (insert a (length ` set xs))"
proof (induction xs arbitrary: a)
  case Nil
  then show ?case by simp
next
  case (Cons x xs)
  have "Max (insert (max a (length x)) (length ` set xs))
      = Max (insert a (insert (length x) (length ` set xs)))"
    by (cases "set xs = {}") (simp_all add: max.assoc)
  with Cons.IH [of "max a (length x)"] show ?case by simp
qed

lemma fold_update_length [simp]:
  "length (fold (\<lambda>(i, v) acc. acc[i := v]) ps a) = length a"
  by (induction ps arbitrary: a) auto

lemma fold_update_other:
  "i \<notin> fst ` set ps \<Longrightarrow> fold (\<lambda>(i, v) acc. acc[i := v]) ps a ! i = a ! i"
  by (induction ps arbitrary: a) auto

lemma fold_update_in:
  assumes "length vals = length idx" "\<forall>k \<in> set idx. k < length a" "i \<in> set idx"
  shows "\<exists>j < length idx. idx ! j = i \<and> fold (\<lambda>(i, v) acc. acc[i := v]) (zip idx vals) a ! i = vals ! j"
  using assms
proof (induction idx arbitrary: vals a)
  case Nil
  then show ?case by simp
next
  case (Cons x xs)
  then obtain v vs where vals: "vals = v # vs" by (cases vals) auto
  let ?r = "fold (\<lambda>(i, v) acc. acc[i := v]) (zip xs vs) (a[x := v])"
  show ?case
  proof (cases "i \<in> set xs")
    case True
    with Cons.IH [of vs "a[x := v]"] Cons.prems vals
    obtain j where "j < length xs" "xs ! j = i" "?r ! i = vs ! j" by auto
    then have "Suc j < length (x # xs) \<and> (x # xs) ! Suc j = i \<and> ?r ! i = (v # vs) ! Suc j" by simp
    then show ?thesis unfolding vals by (intro exI [of _ "Suc j"]) simp
  next
    case False
    with Cons.prems have ix: "i = x" "x < length a" by auto
    have "i \<notin> fst ` set (zip xs vs)" using False by (auto dest: set_zip_leftD)
    then have "?r ! i = a[x := v] ! i" by (rule fold_update_other)
    with ix have "?r ! i = v" by simp
    then show ?thesis unfolding vals using ix by (intro exI [of _ 0]) simp
  qed
qed

lemma index_put_Inr:
  assumes "index_put a idx vals = Inr r"
  shows "length r = length a"
    and "\<forall>k \<in> set idx. k < length a"
    and "length vals = length idx"
    and "\<And>i. i \<notin> set idx \<Longrightarrow> r ! i = a ! i"
    and "\<And>i. i \<in> set idx \<Longrightarrow> \<exists>j < length idx. idx ! j = i \<and> r ! i = vals ! j"
proof -
  from assms have ok: "\<forall>k \<in> set idx. k < length a" "length vals = length idx"
    and r: "r = fold (\<lambda>(i, v) acc. acc[i := v]) (zip idx vals) a"
    by (auto simp: index_put_def split: if_splits)
  show "length r = length a" by (simp add: r)
  show "\<forall>k \<in> set idx. k < length a" by fact
  show "length vals = length idx" by fact
  show "r ! i = a ! i" if "i \<notin> set idx" for i
    unfolding r using that by (intro fold_update_other) (auto dest: set_zip_leftD)
  show "\<exists>j < length idx. idx ! j = i \<and> r ! i = vals ! j" if "i \<in> set idx" for i
    unfolding r using ok that by (intro fold_update_in) auto
qed

lemma index_put_distinct_nth:
  assumes "index_put a idx vals = Inr r" "distinct idx" "j < length idx"
  shows "r ! (idx ! j) = vals ! j"
proof -
  from index_put_Inr(5) [OF assms(1), of "idx ! j"] assms(3)
  obtain j' where "j' < length idx" "idx ! j' = idx ! j" "r ! (idx ! j) = vals ! j'" by auto
  moreover from this assms(2,3) have "j' = j" by (simp add: nth_eq_iff_index_eq)
  ultimately show ?thesis by simp
qed

lemma index_put_fresh:
  assumes put: "index_put c ix conns = Inr c'"
    and dc: "distinct c" and dn: "distinct conns" and fresh: "\<forall>p \<in> set conns. p \<notin> set c"
  shows "distinct c'" and "set c' \<subseteq> set c \<union> set conns"
proof -
  note ip = index_put_Inr [OF put]
  have marked: "\<exists>j < length conns. ix ! j = i \<and> c' ! i = conns ! j" if "i \<in> set ix" for i
    using ip(5) [OF that] ip(3) by auto
  have elem: "c' ! i \<in> set c \<union> set conns" if "i < length c" for i
  proof (cases "i \<in> set ix")
    case True
    with marked show ?thesis by force
  next
    case False
    then show ?thesis using ip(4) that by simp
  qed
  show "set c' \<subseteq> set c \<union> set conns"
  proof
    fix p assume "p \<in> set c'"
    then obtain i where "i < length c'" "c' ! i = p" by (auto simp: in_set_conv_nth)
    with elem [of i] ip(1) show "p \<in> set c \<union> set conns" by simp
  qed
  show "distinct c'"
    unfolding distinct_conv_nth
  proof (intro allI impI)
    fix i j assume i: "i < length c'" and j: "j < length c'" and ne: "i \<noteq> j"
    from i j have il: "i < length c" and jl: "j < length c" using ip(1) by simp_all
    show "c' ! i \<noteq> c' ! j"
    proof (cases "i \<in> set ix")
      case True
      then obtain a where a: "a < length conns" "ix ! a = i" "c' ! i = conns ! a" using marked by blast
      show ?thesis
      proof (cases "j \<in> set ix")
        case True
        then obtain b where b: "b < length conns" "ix ! b = j" "c' ! j = conns ! b" using marked by blast
        from a(2) b(2) ne have "a \<noteq> b" by auto
        with dn a(1) b(1) have "conns ! a \<noteq> conns ! b" by (simp add: nth_eq_iff_index_eq)
        with a(3) b(3) show ?thesis by simp
      next
        case False
        then have "c' ! j = c ! j" by (rule ip(4))
        then have "c' ! j \<in> set c" using jl by simp
        moreover have "c' ! i \<notin> set c" using a(1,3) fresh by simp
        ultimately show ?thesis by metis
      qed
    next
      case False
      then have ci: "c' ! i = c ! i" by (rule ip(4))
      show ?thesis
      proof (cases "j \<in> set ix")
        case True
        then obtain b where b: "b < length conns" "ix ! b = j" "c' ! j = conns ! b" using marked by blast
        then have "c' ! j \<notin> set c" using fresh by simp
        moreover have "c' ! i \<in> set c" using ci il by simp
        ultimately show ?thesis by metis
      next
        case False
        then have "c' ! j = c ! j" by (rule ip(4))
        with ci dc il jl ne show ?thesis by (simp add: nth_eq_iff_index_eq)
      qed
    qed
  qed
qed

lemma traverse_Inr:
  "(\<forall>x \<in> set xs. f x = Inr (h x)) \<Longrightarrow> traverse f xs = Inr (map h xs)"
  by (induction xs) auto

lemma traverse_Inl:
  "traverse f xs = Inl e \<Longrightarrow> \<exists>x \<in> set xs. f x = Inl e"
  by (induction xs) (auto split: sum.splits)

lemma traverse_fails:
  "x \<in> set xs \<Longrightarrow> f x = Inl e \<Longrightarrow> (\<forall>y \<in> set xs. \<forall>e'. f y = Inl e' \<longrightarrow> e' = e)
     \<Longrightarrow> traverse f xs = Inl e"
proof (induction xs)
  case Nil
  then show ?case by simp
next
  case (Cons a xs)
  show ?case
  proof (cases "f a")
    case (Inl e')
    with Cons.prems(3) have "e' = e" by simp
    with Inl show ?thesis by simp
  next
    case (Inr b)
    with Cons.prems have x: "x \<in> set xs" by auto
    have "traverse f xs = Inl e" using Cons.IH [OF x Cons.prems(2)] Cons.prems(3) by simp
    with Inr show ?thesis by simp
  qed
qed

subsection \<open>Numbers: truncation, and rounding to \<^verbatim>\<open>float32\<close>\<close>


lemma py_int_pos:
  assumes "0 < py_int x"
  shows "0 < x"
proof (rule ccontr)
  assume "\<not> 0 < x"
  then have "x \<le> 0" by simp
  then have "\<lfloor>x\<rfloor> \<le> 0" "\<lceil>x\<rceil> \<le> 0" by (simp_all add: floor_le_iff ceiling_le_iff)
  then have "py_int x \<le> 0" by (simp add: py_int_def)
  with assms show False by simp
qed


lemma bitlen_numeral [simp]: "bitlen (numeral k) = Suc (bitlen (numeral k div 2))"
  by (subst bitlen.simps) simp

lemma bitlen_0 [simp]: "bitlen 0 = 0"
  by (subst bitlen.simps) simp

lemma bitlen_1 [simp]: "bitlen (Suc 0) = Suc 0"
  by (subst bitlen.simps) simp

lemma bitlen_le_iff: "bitlen n \<le> k \<longleftrightarrow> n < 2 ^ k"
proof (induction n arbitrary: k rule: bitlen.induct)
  case (1 n)
  show ?case
  proof (cases "n = 0")
    case True
    then show ?thesis by (subst bitlen.simps) simp
  next
    case False
    show ?thesis
    proof (cases k)
      case 0
      with False show ?thesis by (subst bitlen.simps) simp
    next
      case (Suc k')
      have "bitlen n \<le> k \<longleftrightarrow> bitlen (n div 2) \<le> k'"
        using False Suc by (subst bitlen.simps) simp
      also have "\<dots> \<longleftrightarrow> n div 2 < 2 ^ k'" using "1.IH" [OF False] .
      also have "\<dots> \<longleftrightarrow> n < 2 ^ k" unfolding Suc by (simp add: div_less_iff_less_mult mult.commute)
      finally show ?thesis .
    qed
  qed
qed

lemma float32_round_exact:
  assumes "n \<le> 16777216"
  shows "float32_round n = n"
proof (cases "n = 16777216")
  case True
  then show ?thesis by (simp add: float32_round_def Let_def)
next
  case False
  with assms have "n < 2 ^ 24" by simp
  then have "bitlen n \<le> 24" by (simp only: bitlen_le_iff)
  then show ?thesis by (simp add: float32_round_def)
qed

subsection \<open>One sampling attempt\<close>

lemma randint_Inr:
  assumes "randint high m g = Inr (xs, g')"
  shows "0 < high" "0 \<le> m" "length xs = nat m" "\<forall>x \<in> set xs. int x < high"
    "g' = g\<lparr>ipos := ipos g + nat m\<rparr>"
proof -
  from assms have h: "0 < high" "0 \<le> m"
    and xs: "xs = map (\<lambda>j. ints g (ipos g + j) mod nat high) [0..<nat m]"
    and g': "g' = g\<lparr>ipos := ipos g + nat m\<rparr>"
    by (auto simp: randint_def split: if_splits)
  show "0 < high" "0 \<le> m" "g' = g\<lparr>ipos := ipos g + nat m\<rparr>" by fact+
  show "length xs = nat m" by (simp add: xs)
  have "int (a mod nat high) < high" for a
    using h(1) mod_less_divisor [of "nat high" a] by linarith
  then show "\<forall>x \<in> set xs. int x < high" by (auto simp: xs)
qed


lemma in_use_Some: "connections self = Some c \<Longrightarrow> in_use self = set c"
  by (simp add: in_use_def)

lemma sample_new_locs_Inr:
  assumes "sample_new_locs self n g = Inr (nl, g')"
  shows "distinct nl" "nl \<noteq> []" "0 < indim self" "0 < outdim self"
    "\<forall>p \<in> set nl. p \<notin> in_use self \<and> int (fst p) < indim self \<and> int (snd p) < outdim self"
    "0 < n"
proof -
  let ?m = "py_int (real_of_int n * 1.5)"
  from assms obtain iidx g1 oidx where
    i: "randint (indim self) ?m g = Inr (iidx, g1)" and
    o: "randint (outdim self) ?m g1 = Inr (oidx, g')" and
    nl: "nl = filter (\<lambda>tup. tup \<notin> in_use self) (remdups (zip iidx oidx))" and
    ne: "nl \<noteq> []"
    by (auto simp: sample_new_locs_def Let_def in_use_def split: sum.splits if_splits option.splits)
  show "distinct nl" by (simp add: nl)
  show "nl \<noteq> []" by fact
  show "0 < indim self" using randint_Inr(1) [OF i] .
  show "0 < outdim self" using randint_Inr(1) [OF o] .
  show "\<forall>p \<in> set nl. p \<notin> in_use self \<and> int (fst p) < indim self \<and> int (snd p) < outdim self"
    using randint_Inr(4) [OF i] randint_Inr(4) [OF o]
    by (auto simp: nl dest: set_zip_leftD set_zip_rightD)
  have "iidx \<noteq> []" using ne nl by auto
  then have "0 < ?m" using randint_Inr(3) [OF i] by (cases "0 < ?m") auto
  then have "0 < real_of_int n * 1.5" by (rule py_int_pos)
  then show "0 < n" by (simp add: zero_less_mult_iff)
qed




subsection \<open>\<^verbatim>\<open>generate_connections\<close>: results and termination\<close>


lemma generate_connections_done:
  "sample_new_locs self n g = Inr (nl, g') \<Longrightarrow> \<not> int (length nl) < n \<Longrightarrow>
     generate_connections self n g = Some (Inr (take (nat n) nl, g'))"
  by (subst generate_connections.simps) simp


text \<open>
  Whatever \<^verbatim>\<open>generate_connections\<close> returns is a list of fresh pairs. The function is
  partial, so the proof is by the induction rule of its fixed-point definition.
\<close>

lemma generate_connections_Inr:
  assumes "generate_connections self n g = Some (Inr (conns, g'))"
  shows "fresh_pairs self n conns"
proof -
  have "\<forall>conns g'. y = Inr (conns, g') \<longrightarrow> fresh_pairs self n conns"
    if run: "generate_connections self n g = Some y" for y
  proof (rule generate_connections.raw_induct
      [where P = "\<lambda>self n g y. \<forall>conns g'. y = Inr (conns, g') \<longrightarrow> fresh_pairs self n conns", OF _ run])
    fix rec self n g y
    assume IH: "\<And>self n g y. rec self n g = Some y \<Longrightarrow>
        \<forall>conns g'. y = Inr (conns, g') \<longrightarrow> fresh_pairs self n conns"
      and eq: "(case sample_new_locs self n g of
                  Inl e \<Rightarrow> Some (Inl e)
                | Inr (new_locs, g') \<Rightarrow>
                    if int (length new_locs) < n then rec self n g'
                    else Some (Inr (take (nat n) new_locs, g'))) = Some y"
    show "\<forall>conns g'. y = Inr (conns, g') \<longrightarrow> fresh_pairs self n conns"
    proof (cases "sample_new_locs self n g")
      case (Inl e)
      with eq show ?thesis by auto
    next
      case (Inr r)
      obtain nl g1 where r: "r = (nl, g1)" by (cases r)
      note s = sample_new_locs_Inr [OF Inr [unfolded r]]
      show ?thesis
      proof (cases "int (length nl) < n")
        case True
        have "rec self n g1 = Some y" using eq Inr r True by simp
        then show ?thesis by (rule IH)
      next
        case False
        have y: "y = Inr (take (nat n) nl, g1)" using eq Inr r False by simp
        have "distinct (take (nat n) nl)" using s(1) by simp
        moreover have "int (length (take (nat n) nl)) = n" using False s(6) by simp
        moreover have "\<forall>p \<in> set (take (nat n) nl).
            p \<notin> in_use self \<and> int (fst p) < indim self \<and> int (snd p) < outdim self"
          using s(5) by (auto dest: in_set_takeD)
        ultimately show ?thesis using s(3,4,6) y by (simp add: fresh_pairs_def)
      qed
    qed
  qed
  with assms show ?thesis by blast
qed








subsection \<open>What the methods leave alone, and how a completed call decomposes\<close>

lemma generate_zmap_frame:
  assumes "generate_zmap self = Inr self'"
  shows "weight self' = weight self" "connections self' = connections self"
    "bias self' = bias self" "marked_indices self' = marked_indices self"
    "indim self' = indim self" "outdim self' = outdim self" "n_params self' = n_params self"
    "zeta self' = zeta self"
  using assms by (auto simp: generate_zmap_def Let_def split: if_splits option.splits)


lemma generate_zmap_idem: "generate_zmap self = Inr self' \<Longrightarrow> generate_zmap self' = Inr self'"
  by (auto simp: generate_zmap_def Let_def split: if_splits option.splits)

lemma grow_connections_frame:
  assumes "grow_connections self indices g = Some (Inr (self', g'))"
  shows "weight self' = weight self" "zmap self' = zmap self"
    "bias self' = bias self" "marked_indices self' = marked_indices self"
    "indim self' = indim self" "outdim self' = outdim self" "n_params self' = n_params self"
    "zeta self' = zeta self"
  using assms by (auto simp: grow_connections_def Let_def split: option.splits sum.splits)

lemma reset_parameters_frame:
  assumes "reset_parameters self g = Inr (self', g')"
  shows "connections self' = connections self" "zmap self' = zmap self"
    "marked_indices self' = marked_indices self"
    "indim self' = indim self" "outdim self' = outdim self" "n_params self' = n_params self"
    "zeta self' = zeta self" "sparsity self' = sparsity self"
    "bias self' = None \<longleftrightarrow> bias self = None"
  using assms by (auto simp: reset_parameters_def Let_def split: sum.splits option.splits)

lemma grow_connections_Some_Inr:
  assumes "grow_connections self (Some ix) g = Some (Inr (self', g'))"
  obtains conns c c' where
    "generate_connections self (int (length ix)) g = Some (Inr (conns, g'))"
    "connections self = Some c" "index_put c ix conns = Inr c'"
    "self' = self\<lparr>connections := Some c'\<rparr>"
  using assms by (auto simp: grow_connections_def split: option.splits sum.splits)

lemma grow_connections_None_Inr:
  assumes "grow_connections self None g = Some (Inr (self', g'))"
  obtains conns where
    "generate_connections self (n_params self) g = Some (Inr (conns, g'))"
    "self' = self\<lparr>connections := Some conns\<rparr>"
  using assms by (auto simp: grow_connections_def split: option.splits sum.splits)

lemma SETLayer_init_Inr:
  assumes "SETLayer_init i d eps sp zt b g = Some (Inr (self, g'))"
  obtains s conns g1 self2 where
    "derive_sparsity i d eps sp = Inr s"
    "generate_connections
       \<lparr>indim = i, outdim = d, epsilon = eps, zeta = zt, sparsity = s,
        n_params = py_int (real_of_int (i * d) * (1 - s)),
        marked_indices = None, connections = None, zmap = [], weight = [], bias = None\<rparr>
       (py_int (real_of_int (i * d) * (1 - s))) g = Some (Inr (conns, g1))"
    "generate_zmap
       \<lparr>indim = i, outdim = d, epsilon = eps, zeta = zt, sparsity = s,
        n_params = py_int (real_of_int (i * d) * (1 - s)),
        marked_indices = None, connections = Some conns, zmap = [], weight = [], bias = None\<rparr>
       = Inr self2"
    "reset_parameters
       (self2\<lparr>weight := replicate (nat (n_params self2)) 0,
              bias := (if b then Some (replicate (nat d) 0) else None)\<rparr>) g1 = Inr (self, g')"
  using assms
  by (auto simp: SETLayer_init_def Let_def grow_connections_def split: sum.splits option.splits)

lemma evolve_values_False: "evolve_values self False n g = Inr (replicate n 0, g)"
  by (simp add: evolve_values_def)

lemma evolve_values_True:
  assumes "evolve_values self True n g = Inr (vs, g1)"
  shows "vs = map (\<lambda>j. normals g (npos g + j) * sqrt (2 / real_of_int (indim self))) [0..<n]"
  using assms
  by (auto simp: evolve_values_def stdv_of_def randn_def split: if_splits sum.splits)

lemma evolve_connections_Inr:
  assumes "evolve_connections self init g = Some (Inr (self', g'))"
  obtains indices new_values g1 w self1 where
    "evolve_indices self = Inr indices"
    "evolve_values self init (length indices) g = Inr (new_values, g1)"
    "index_put (weight self) indices new_values = Inr w"
    "grow_connections (self\<lparr>weight := w\<rparr>) (Some indices) g1 = Some (Inr (self1, g'))"
    "generate_zmap self1 = Inr self'"
  using assms by (auto simp: evolve_connections_def split: option.splits sum.splits)


lemma evolve_connections_marked:
  assumes "evolve_connections self init g = Some (Inr (self', g'))"
  shows "marked_indices self' = marked_indices self"
proof -
  from assms obtain indices new_values g1 w self1 where
    e: "grow_connections (self\<lparr>weight := w\<rparr>) (Some indices) g1 = Some (Inr (self1, g'))"
    "generate_zmap self1 = Inr self'"
    by (rule evolve_connections_Inr)
  show ?thesis
    using generate_zmap_frame(4) [OF e(2)] grow_connections_frame(4) [OF e(1)] by simp
qed

lemma evolve_connections_pairs:
  assumes "evolve_connections self init g = Some (Inr (self', g'))"
  obtains ix c conns c' where
    "evolve_indices self = Inr ix" "connections self = Some c" "connections self' = Some c'"
    "index_put c ix conns = Inr c'" "fresh_pairs self (int (length ix)) conns"
    "n_params self' = n_params self" "indim self' = indim self" "outdim self' = outdim self"
proof -
  from assms obtain ix new_values g1 w self1 where
    e: "evolve_indices self = Inr ix"
    "grow_connections (self\<lparr>weight := w\<rparr>) (Some ix) g1 = Some (Inr (self1, g'))"
    "generate_zmap self1 = Inr self'"
    by (rule evolve_connections_Inr)
  from e(2) obtain conns c c' where
    gr: "generate_connections (self\<lparr>weight := w\<rparr>) (int (length ix)) g1 = Some (Inr (conns, g'))"
    "connections (self\<lparr>weight := w\<rparr>) = Some c" "index_put c ix conns = Inr c'"
    "self1 = self\<lparr>weight := w, connections := Some c'\<rparr>"
    by (rule grow_connections_Some_Inr)
  have "fresh_pairs (self\<lparr>weight := w\<rparr>) (int (length ix)) conns"
    using gr(1) by (rule generate_connections_Inr)
  then have f: "fresh_pairs self (int (length ix)) conns"
    by (simp add: fresh_pairs_def in_use_def)
  note z = generate_zmap_frame [OF e(3)]
  show thesis
    using e(1) gr(2,3) f z(2,5,6,7) by (intro that [of ix c c' conns]) (simp_all add: gr(4))
qed

subsection \<open>The connection table\<close>

lemma SETLayer_init_connections_ok:
  assumes "SETLayer_init i d eps sp zt b g = Some (Inr (self, g'))"
  shows "connections_ok self"
proof -
  from assms obtain s conns g1 self2 where
    e: "derive_sparsity i d eps sp = Inr s"
    "generate_connections
       \<lparr>indim = i, outdim = d, epsilon = eps, zeta = zt, sparsity = s,
        n_params = py_int (real_of_int (i * d) * (1 - s)),
        marked_indices = None, connections = None, zmap = [], weight = [], bias = None\<rparr>
       (py_int (real_of_int (i * d) * (1 - s))) g = Some (Inr (conns, g1))"
    "generate_zmap
       \<lparr>indim = i, outdim = d, epsilon = eps, zeta = zt, sparsity = s,
        n_params = py_int (real_of_int (i * d) * (1 - s)),
        marked_indices = None, connections = Some conns, zmap = [], weight = [], bias = None\<rparr>
       = Inr self2"
    "reset_parameters
       (self2\<lparr>weight := replicate (nat (n_params self2)) 0,
              bias := (if b then Some (replicate (nat d) 0) else None)\<rparr>) g1 = Inr (self, g')"
    by (rule SETLayer_init_Inr)
  note f = generate_connections_Inr [OF e(2), unfolded fresh_pairs_def]
  note z = generate_zmap_frame [OF e(3)]
  note r = reset_parameters_frame [OF e(4)]
  have "connections self = Some conns" "n_params self = py_int (real_of_int (i * d) * (1 - s))"
    "indim self = i" "outdim self = d"
    using r(1,4,5,6) z(2,5,6,7) by simp_all
  with f show "connections_ok self" by (simp add: connections_ok_def)
qed

lemma evolve_connections_ok:
  assumes ok: "connections_ok self"
    and run: "evolve_connections self init g = Some (Inr (self', g'))"
  shows "connections_ok self'"
proof -
  from run obtain ix c conns c' where
    e: "evolve_indices self = Inr ix" "connections self = Some c" "connections self' = Some c'"
    "index_put c ix conns = Inr c'" "fresh_pairs self (int (length ix)) conns"
    "n_params self' = n_params self" "indim self' = indim self" "outdim self' = outdim self"
    by (rule evolve_connections_pairs)
  from ok e(2) have ok: "int (length c) = n_params self" "distinct c"
    "\<forall>p \<in> set c. int (fst p) < indim self \<and> int (snd p) < outdim self"
    by (simp_all add: connections_ok_def)
  from e(5) have fr: "distinct conns" "\<forall>p \<in> set conns. p \<notin> set c"
    "\<forall>p \<in> set conns. int (fst p) < indim self \<and> int (snd p) < outdim self"
    by (simp_all add: fresh_pairs_def in_use_Some [OF e(2)])
  note ip = index_put_fresh [OF e(4) ok(2) fr(1,2)]
  have "length c' = length c" using index_put_Inr(1) [OF e(4)] .
  moreover have "\<forall>p \<in> set c'. int (fst p) < indim self \<and> int (snd p) < outdim self"
    using ip(2) ok(3) fr(3) by blast
  ultimately show "connections_ok self'"
    using ip(1) ok(1) e(3,6,7,8) by (simp add: connections_ok_def)
qed

subsection \<open>\<^verbatim>\<open>mark_connections\<close>\<close>

text \<open>
  The masks of lines 149 to 172 amount to two intersections: the negative slots among
  the largest values, and the positive slots among the smallest.
\<close>

lemma mask_of_nth: "i < n \<Longrightarrow> mask_of n inds ! i = (if i \<in> set inds then 1 else 0)"
  by (simp add: mask_of_def)

lemma length_mask_of [simp]: "length (mask_of n inds) = n"
  by (simp add: mask_of_def)

lemma nonzero_masks:
  "nonzero (map2 (+)
      (map2 (*) (map (\<lambda>w. if w < 0 then 1 else 0 :: int) tens) (mask_of (length tens) a))
      (map2 (*) (map (\<lambda>w. if 0 < w then 1 else 0 :: int) tens) (mask_of (length tens) b)))
   = marked_by tens a b"
  unfolding nonzero_def marked_by_def
  by (rule filter_cong) (auto simp: mask_of_nth)

lemma mark_connections_eq:
  "mark_connections self =
     (case topk (weight self)
             (py_int (real (length (filter (\<lambda>w. w < 0) (weight self))) * zeta self)
               + int (length (filter (\<lambda>w. 0 < w) (weight self)))) True of
        Inl e \<Rightarrow> Inl e
      | Inr a \<Rightarrow>
          (case topk (weight self)
                  (py_int (real (length (filter (\<lambda>w. 0 < w) (weight self))) * zeta self)
                    + int (length (filter (\<lambda>w. w < 0) (weight self)))) False of
             Inl e \<Rightarrow> Inl e
           | Inr b \<Rightarrow> Inr (marked_by (weight self) a b)))"
  unfolding mark_connections_def Let_def
  by (simp add: sum_list_indicator nonzero_masks split: sum.splits)












subsection \<open>\<^verbatim>\<open>generate_zmap\<close>\<close>

lemma longest_eq:
  assumes "0 < d"
  shows "fold (\<lambda>indcs l. max l (length indcs)) (map (fan_in c) [0..<d]) 0 = max_fan_in c d"
proof -
  have ne: "(\<lambda>i. length (fan_in c i)) ` {0..<d} \<noteq> {}" using assms by simp
  have "length ` set (map (fan_in c) [0..<d]) = (\<lambda>i. length (fan_in c i)) ` {0..<d}"
    by (auto simp: image_image)
  then have "fold (\<lambda>indcs l. max l (length indcs)) (map (fan_in c) [0..<d]) 0
      = Max (insert 0 ((\<lambda>i. length (fan_in c i)) ` {0..<d}))"
    by (simp only: fold_max_length)
  also have "\<dots> = max_fan_in c d"
    using ne by (simp add: max_fan_in_def)
  finally show ?thesis .
qed

lemma fan_in_le_max: "i < d \<Longrightarrow> length (fan_in c i) \<le> max_fan_in c d"
  by (simp add: max_fan_in_def)

lemma fan_in_mem: "s \<in> set (fan_in c i) \<longleftrightarrow> s < length c \<and> snd (c ! s) = i"
  by (auto simp: fan_in_def)

lemma generate_zmap_rows:
  assumes "generate_zmap self = Inr self'" "connections self = Some c" "0 < outdim self"
  shows "length (zmap self') = nat (outdim self)"
    and "\<And>i. i < nat (outdim self) \<Longrightarrow>
           zmap self' ! i = fan_in c i @ replicate (max_fan_in c (nat (outdim self)) - length (fan_in c i))
                                        (float32_round (nat (n_params self)))"
proof -
  have d: "0 < nat (outdim self)" using assms(3) by simp
  from assms have z: "zmap self' = map (\<lambda>inds. inds @ replicate (max_fan_in c (nat (outdim self)) - length inds)
      (float32_round (nat (n_params self)))) (map (fan_in c) [0..<nat (outdim self)])"
    by (auto simp: generate_zmap_def Let_def longest_eq [OF d] split: if_splits)
  show "length (zmap self') = nat (outdim self)" by (simp add: z)
  show "zmap self' ! i = fan_in c i @ replicate (max_fan_in c (nat (outdim self)) - length (fan_in c i))
                                        (float32_round (nat (n_params self)))"
    if "i < nat (outdim self)" for i
    using that by (simp add: z)
qed

text \<open>
  For a layer of at most \<open>2\<^sup>2\<^sup>4\<close> weight slots the padding value is \<open>n_params\<close>, and the
  table is as the specification describes it: every slot occurs in the row of its output,
  every row is as long as the largest fan-in, and the cells beyond a row's fan-in hold
  \<open>n_params\<close>.
\<close>

lemma generate_zmap_correct:
  assumes "generate_zmap self = Inr self'" "connections self = Some c" "0 < outdim self"
    and bound: "\<forall>p \<in> set c. int (snd p) < outdim self"
    and small: "0 \<le> n_params self" "n_params self \<le> 16777216"
  shows "length (zmap self') = nat (outdim self)"
    and "\<forall>s < length c. s \<in> set (zmap self' ! snd (c ! s))"
    and "\<forall>i < nat (outdim self). length (zmap self' ! i) = max_fan_in c (nat (outdim self))"
    and "\<forall>i < nat (outdim self). \<forall>j. length (fan_in c i) \<le> j \<and> j < length (zmap self' ! i)
          \<longrightarrow> int (zmap self' ! i ! j) = n_params self"
proof -
  note rows = generate_zmap_rows [OF assms(1-3)]
  have pad: "float32_round (nat (n_params self)) = nat (n_params self)"
    using small by (intro float32_round_exact) simp
  show "length (zmap self') = nat (outdim self)" by (rule rows(1))
  show "\<forall>s < length c. s \<in> set (zmap self' ! snd (c ! s))"
  proof (intro allI impI)
    fix s assume s: "s < length c"
    then have "snd (c ! s) < nat (outdim self)" using bound nth_mem [OF s] by fastforce
    then show "s \<in> set (zmap self' ! snd (c ! s))" using s by (simp add: rows(2) fan_in_mem)
  qed
  show "\<forall>i < nat (outdim self). length (zmap self' ! i) = max_fan_in c (nat (outdim self))"
    using fan_in_le_max [of _ "nat (outdim self)" c] by (simp add: rows(2))
  show "\<forall>i < nat (outdim self). \<forall>j. length (fan_in c i) \<le> j \<and> j < length (zmap self' ! i)
          \<longrightarrow> int (zmap self' ! i ! j) = n_params self"
    using small(1) by (auto simp: rows(2) nth_append pad)
qed

subsection \<open>\<^verbatim>\<open>forward\<close>\<close>

text \<open>
  Every layer of at most \<open>2\<^sup>2\<^sup>4\<close> weight slots that \<^verbatim>\<open>__init__\<close> returns can be
  evaluated, and \<^verbatim>\<open>evolve_connections\<close> keeps it so.
\<close>

lemma generate_zmap_weight_bias:
  "generate_zmap self = Inr self' \<Longrightarrow> generate_zmap (self'\<lparr>weight := w, bias := b\<rparr>) = Inr (self'\<lparr>weight := w, bias := b\<rparr>)"
  by (auto simp: generate_zmap_def Let_def split: if_splits option.splits)

lemma reset_parameters_Inr:
  assumes "reset_parameters self g = Inr (self', g')"
  shows "int (length (weight self')) = max 0 (n_params self)"
    and "self' = self\<lparr>weight := weight self', bias := bias self'\<rparr>"
    and "case bias self' of None \<Rightarrow> True | Some b \<Rightarrow> int (length b) = max 0 (outdim self)"
  using assms
  by (auto simp: reset_parameters_def randn_def Let_def split: sum.splits option.splits if_splits)

lemma SETLayer_init_evaluable:
  assumes run: "SETLayer_init i d eps sp zt b g = Some (Inr (self, g'))"
    and small: "n_params self \<le> 16777216"
  shows "evaluable self"
proof -
  from run obtain s conns g1 self2 where
    e: "derive_sparsity i d eps sp = Inr s"
    "generate_connections
       \<lparr>indim = i, outdim = d, epsilon = eps, zeta = zt, sparsity = s,
        n_params = py_int (real_of_int (i * d) * (1 - s)),
        marked_indices = None, connections = None, zmap = [], weight = [], bias = None\<rparr>
       (py_int (real_of_int (i * d) * (1 - s))) g = Some (Inr (conns, g1))"
    "generate_zmap
       \<lparr>indim = i, outdim = d, epsilon = eps, zeta = zt, sparsity = s,
        n_params = py_int (real_of_int (i * d) * (1 - s)),
        marked_indices = None, connections = Some conns, zmap = [], weight = [], bias = None\<rparr>
       = Inr self2"
    "reset_parameters
       (self2\<lparr>weight := replicate (nat (n_params self2)) 0,
              bias := (if b then Some (replicate (nat d) 0) else None)\<rparr>) g1 = Inr (self, g')"
    by (rule SETLayer_init_Inr)
  note f = generate_connections_Inr [OF e(2), unfolded fresh_pairs_def]
  note z = generate_zmap_frame [OF e(3)]
  note r = reset_parameters_frame [OF e(4)]
  note rr = reset_parameters_Inr [OF e(4)]
  have n: "n_params self = py_int (real_of_int (i * d) * (1 - s))" "outdim self = d"
    using r(5,6) z(6,7) by simp_all
  have pos: "0 < n_params self" "0 < outdim self" using f n by simp_all
  from rr(2) have "self = self2\<lparr>weight := weight self, bias := bias self\<rparr>" by simp
  then have zm: "generate_zmap self = Inr self"
    using generate_zmap_weight_bias [OF e(3), where w = "weight self" and b = "bias self"] by simp
  have wl: "int (length (weight self)) = n_params self"
    using rr(1) r(6) pos(1) by simp
  have bl: "case bias self of None \<Rightarrow> True | Some b \<Rightarrow> int (length b) = outdim self"
    using rr(3) r(5) pos(2) by (auto split: option.splits)
  show ?thesis
    unfolding evaluable_def
    using SETLayer_init_connections_ok [OF run] pos(1) small wl zm bl by simp
qed

lemma evolve_evaluable:
  assumes ev: "evaluable self"
    and run: "evolve_connections self init g = Some (Inr (self', g'))"
  shows "evaluable self'"
proof -
  from run obtain ix vs g1 w self1 where
    e: "evolve_indices self = Inr ix"
    "evolve_values self init (length ix) g = Inr (vs, g1)"
    "index_put (weight self) ix vs = Inr w"
    "grow_connections (self\<lparr>weight := w\<rparr>) (Some ix) g1 = Some (Inr (self1, g'))"
    "generate_zmap self1 = Inr self'"
    by (rule evolve_connections_Inr)
  note z = generate_zmap_frame [OF e(5)]
  note gf = grow_connections_frame [OF e(4)]
  have "weight self' = w" using z(1) gf(1) by simp
  then have wl: "length (weight self') = length (weight self)"
    using index_put_Inr(1) [OF e(3)] by simp
  have n: "n_params self' = n_params self" "outdim self' = outdim self" "bias self' = bias self"
    using z(3,6,7) gf(3,6,7) by simp_all
  show ?thesis
    unfolding evaluable_def
    using ev evolve_connections_ok [OF _ run] generate_zmap_idem [OF e(5)] wl n
    by (auto simp: evaluable_def split: option.splits)
qed

text \<open>
  The value of \<^verbatim>\<open>forward\<close>, from the shape of the tables alone; then for a layer that
  can be evaluated.
\<close>

lemma forward_value:
  assumes c: "connections self = Some c"
    and w: "length (weight self) = length c"
    and zl: "length (zmap self) = d"
    and zr: "\<forall>i < d. \<exists>k. zmap self ! i = fan_in c i @ replicate k (length c)"
    and b: "bias self = Some b" "length b = d"
    and x: "\<forall>row \<in> set x. \<forall>p \<in> set c. fst p < length row"
  shows "forward self x = Inr (map (\<lambda>row. map (\<lambda>i. slot_sum c (weight self) row i + b ! i) [0..<d]) x)"
proof -
  let ?w = "weight self"
  let ?inds = "map fst c"
  let ?ga = "\<lambda>row. map (\<lambda>i. row ! i) ?inds"
  let ?mu = "\<lambda>row. map2 (*) row ?w"
  let ?ex = "\<lambda>row. row @ [0::real]"
  let ?kk = "\<lambda>row. ?ex (?mu (?ga row))"
  let ?zm = "\<lambda>krow. map (\<lambda>zrow. map (\<lambda>i. krow ! i) zrow) (zmap self)"
  let ?ad = "\<lambda>zrow. map2 (+) zrow b"
  have cell: "i < length krow" if "zrow \<in> set (zmap self)" "i \<in> set zrow" "length krow = Suc (length c)"
    for zrow i krow
  proof -
    from that(1) obtain j where j: "j < d" "zrow = zmap self ! j"
      unfolding zl [symmetric] by (auto simp: in_set_conv_nth)
    with zr obtain k where "zrow = fan_in c j @ replicate k (length c)" by auto
    with that(2,3) show ?thesis by (auto simp: fan_in_mem)
  qed
  have s0: "traverse (\<lambda>row. gather row ?inds) x = Inr (map ?ga x)"
    using x by (intro traverse_Inr) (auto simp: gather_def)
  have s1: "traverse (\<lambda>row. broadcast (*) row ?w) (map ?ga x) = Inr (map ?mu (map ?ga x))"
    using w by (intro traverse_Inr) (auto simp: broadcast_def)
  have s2: "traverse (\<lambda>row. traverse (gather row) (zmap self)) (map ?ex (map ?mu (map ?ga x)))
      = Inr (map ?zm (map ?ex (map ?mu (map ?ga x))))"
  proof (rule traverse_Inr [where h = ?zm], rule ballI)
    fix krow assume "krow \<in> set (map ?ex (map ?mu (map ?ga x)))"
    then have len: "length krow = Suc (length c)" using w by auto
    show "traverse (gather krow) (zmap self) = Inr (?zm krow)"
      using cell [OF _ _ len]
      by (intro traverse_Inr [where h = "\<lambda>zrow. map (\<lambda>i. krow ! i) zrow"]) (auto simp: gather_def)
  qed
  have s3: "traverse (\<lambda>row. broadcast (+) row b)
        (map (map sum_list) (map ?zm (map ?ex (map ?mu (map ?ga x)))))
      = Inr (map ?ad (map (map sum_list) (map ?zm (map ?ex (map ?mu (map ?ga x))))))"
    using zl b(2) by (intro traverse_Inr) (auto simp: broadcast_def)
  have fw: "forward self x
      = Inr (map ?ad (map (map sum_list) (map ?zm (map ?ex (map ?mu (map ?ga x))))))"
    unfolding forward_def Let_def c b(1) option.case s0 sum.case s1 s2 s3 ..
  have row: "?ad (map sum_list (?zm (?kk row)))
      = map (\<lambda>i. slot_sum c ?w row i + b ! i) [0..<d]" if r: "row \<in> set x" for row
  proof (rule nth_equalityI)
    show "length (?ad (map sum_list (?zm (?kk row))))
        = length (map (\<lambda>i. slot_sum c ?w row i + b ! i) [0..<d])"
      using zl b(2) by simp
  next
    fix i assume "i < length (?ad (map sum_list (?zm (?kk row))))"
    then have i: "i < d" using zl b(2) by simp
    from zr i obtain k where zi: "zmap self ! i = fan_in c i @ replicate k (length c)" by auto
    have real: "?kk row ! s = row ! fst (c ! s) * ?w ! s" if "s \<in> set (fan_in c i)" for s
    proof -
      from that have s: "s < length c" by (simp add: fan_in_mem)
      then show ?thesis using w by (simp add: nth_append)
    qed
    have null: "?kk row ! length c = 0" using w by (simp add: nth_append)
    have "sum_list (map (\<lambda>j. ?kk row ! j) (zmap self ! i))
        = sum_list (map (\<lambda>j. ?kk row ! j) (fan_in c i))
          + sum_list (replicate k (?kk row ! length c))"
      unfolding zi by simp
    also have "map (\<lambda>j. ?kk row ! j) (fan_in c i) = map (\<lambda>s. row ! fst (c ! s) * ?w ! s) (fan_in c i)"
      using real by (intro map_cong) auto
    also have "sum_list (replicate k (?kk row ! length c)) = 0"
      unfolding null by (rule sum_list_replicate_zero)
    finally have "sum_list (map (\<lambda>j. ?kk row ! j) (zmap self ! i)) = slot_sum c ?w row i"
      by (simp add: slot_sum_def)
    then show "?ad (map sum_list (?zm (?kk row))) ! i
        = map (\<lambda>i. slot_sum c ?w row i + b ! i) [0..<d] ! i"
      using i zl b(2) by simp
  qed
  have "map ?ad (map (map sum_list) (map ?zm (map ?ex (map ?mu (map ?ga x)))))
      = map (\<lambda>row. map (\<lambda>i. slot_sum c ?w row i + b ! i) [0..<d]) x"
    using row by (simp add: comp_def)
  with fw show ?thesis by simp
qed

lemma gather_Inl: "gather row inds = Inl e \<Longrightarrow> e = IndexError"
  by (auto simp: gather_def split: if_splits)

lemma forward_IndexError:
  assumes "connections self = Some c" "row \<in> set x" "p \<in> set c" "length row \<le> fst p"
  shows "forward self x = Inl IndexError"
proof -
  have "\<not> fst p < length row" using assms(4) by simp
  with assms(3) have "\<not> (\<forall>i \<in> set (map fst c). i < length row)" by auto
  then have "gather row (map fst c) = Inl IndexError"
    by (simp only: gather_def if_False)
  with assms(2) have "traverse (\<lambda>row. gather row (map fst c)) x = Inl IndexError"
    by (rule traverse_fails) (auto dest: gather_Inl)
  then show ?thesis by (simp add: forward_def assms(1))
qed

lemma forward_no_bias: "bias self = None \<Longrightarrow> forward self x \<noteq> Inr y"
  by (auto simp: forward_def Let_def split: option.splits sum.splits)

lemma evaluable_forward:
  assumes "evaluable self" "connections self = Some c" "bias self = Some b"
    and x: "\<forall>row \<in> set x. \<forall>p \<in> set c. fst p < length row"
  shows "forward self x
     = Inr (map (\<lambda>row. map (\<lambda>i. slot_sum c (weight self) row i + b ! i) [0..<nat (outdim self)]) x)"
proof -
  from assms(1,2) have ok: "int (length c) = n_params self"
    "\<forall>p \<in> set c. int (fst p) < indim self \<and> int (snd p) < outdim self"
    and n: "0 < n_params self" "n_params self \<le> 16777216"
    and w: "int (length (weight self)) = n_params self"
    and z: "generate_zmap self = Inr self"
    by (auto simp: evaluable_def connections_ok_def)
  from ok(1) n(1) have "c \<noteq> []" by auto
  then obtain p where "p \<in> set c" by (cases c) auto
  with ok(2) have d: "0 < outdim self" by fastforce
  note rows = generate_zmap_rows [OF z assms(2) d]
  have pad: "float32_round (nat (n_params self)) = length c"
    using float32_round_exact [of "nat (n_params self)"] n ok(1) by simp
  have zr: "\<forall>i < nat (outdim self). \<exists>k. zmap self ! i = fan_in c i @ replicate k (length c)"
    using rows(2) pad by auto
  have bl: "length b = nat (outdim self)"
    using assms(1,3) by (auto simp: evaluable_def)
  have wl: "length (weight self) = length c" using w ok(1) by simp
  show ?thesis
    using assms(2) wl rows(1) zr assms(3) bl x by (rule forward_value)
qed

text \<open>
  What \<^verbatim>\<open>forward\<close> computes on a layer with a bias and at most \<open>2\<^sup>2\<^sup>4\<close> weight slots:
  for every row and every output, the sum over the slots that target the output of input
  times weight, plus the bias; an output without connections yields its bias.
\<close>

lemma forward_correct:
  assumes "evaluable self" "connections self = Some c" "bias self = Some b"
    and "\<forall>row \<in> set x. int (length row) = indim self"
  shows "forward self x
     = Inr (map (\<lambda>row. map (\<lambda>i. slot_sum c (weight self) row i + b ! i) [0..<nat (outdim self)]) x)"
    and "fan_in c i = [] \<Longrightarrow> slot_sum c (weight self) row i + b ! i = b ! i"
proof -
  from assms(1,2) have "\<forall>p \<in> set c. int (fst p) < indim self"
    by (auto simp: evaluable_def connections_ok_def)
  with assms(4) have "\<forall>row \<in> set x. \<forall>p \<in> set c. fst p < length row" by fastforce
  from evaluable_forward [OF assms(1-3) this]
  show "forward self x
     = Inr (map (\<lambda>row. map (\<lambda>i. slot_sum c (weight self) row i + b ! i) [0..<nat (outdim self)]) x)" .
  show "slot_sum c (weight self) row i + b ! i = b ! i" if "fan_in c i = []"
    using that by (simp add: slot_sum_def)
qed

subsection \<open>Runs of the example layers\<close>

lemma Lc_marks: "mark_connections Lc = Inr [0, 1]"
  by (simp add: mark_connections_eq Lc_def topk_def py_int_def marked_by_def upt_rec)

lemma Lc_marks_with_zeros: "mark_connections (Lc\<lparr>weight := [1, 0, -1, -2, 0]\<rparr>) = Inr []"
  by (simp add: mark_connections_eq Lc_def topk_def py_int_def marked_by_def upt_rec)

lemma Lc_connections_ok: "connections_ok Lc"
  by (simp add: connections_ok_def Lc_def)

lemma Lc_evaluable: "evaluable Lc"
  by (simp add: evaluable_def connections_ok_def generate_zmap_def fan_in_def float32_round_def
      Lc_def upt_rec)

lemma Lc_sample:
  "sample_new_locs (Lc\<lparr>weight := w\<rparr>) 2 g0 = Inr ([(2, 0), (2, 1), (1, 2)], g0\<lparr>ipos := 6\<rparr>)"
  by (simp add: sample_new_locs_def Lc_def g0_def randint_def py_int_def upt_rec)

lemma Lc_generate:
  "generate_connections (Lc\<lparr>weight := w\<rparr>) 2 g0 = Some (Inr ([(2, 0), (2, 1)], g0\<lparr>ipos := 6\<rparr>))"
  using generate_connections_done [OF Lc_sample, of w] by simp

lemma Lc_evolve_False:
  "evolve_connections Lc False g0 = Some (Inr (Lc_evolved, g0\<lparr>ipos := 6\<rparr>))"
proof -
  have i: "evolve_indices Lc = Inr [0, 1]"
    using Lc_marks by (simp add: evolve_indices_def Lc_def)
  have w: "index_put (weight Lc) [0, 1] [0, 0] = Inr [0, 0, 3, 4, -1]"
    by (simp add: index_put_def Lc_def)
  have g: "grow_connections (Lc\<lparr>weight := [0, 0, 3, 4, -1]\<rparr>) (Some [0, 1]) g0
      = Some (Inr (Lc\<lparr>weight := [0, 0, 3, 4, -1],
                       connections := Some [(2, 0), (2, 1), (0, 1), (1, 1), (0, 2)]\<rparr>, g0\<lparr>ipos := 6\<rparr>))"
    by (simp add: grow_connections_def Lc_generate) (simp add: Lc_def index_put_def)
  have z: "generate_zmap (Lc\<lparr>weight := [0, 0, 3, 4, -1],
                       connections := Some [(2, 0), (2, 1), (0, 1), (1, 1), (0, 2)]\<rparr>) = Inr Lc_evolved"
    by (simp add: generate_zmap_def Lc_def Lc_evolved_def fan_in_def float32_round_def upt_rec)
  show ?thesis
    using i w g z by (simp add: evolve_connections_def evolve_values_def)
qed

lemma Lc_evolve_True:
  "evolve_connections Lc True g0
     = Some (Inr (Lc_evolved\<lparr>weight := [sqrt (2 / 3), 2 * sqrt (2 / 3), 3, 4, -1]\<rparr>,
                  g0\<lparr>npos := 2, ipos := 6\<rparr>))"
proof -
  let ?w = "[sqrt (2 / 3), 2 * sqrt (2 / 3), 3, 4, -1]"
  have i: "evolve_indices Lc = Inr [0, 1]"
    using Lc_marks by (simp add: evolve_indices_def Lc_def)
  have v: "evolve_values Lc True (length [0, 1 :: nat]) g0 = Inr ([sqrt (2 / 3), 2 * sqrt (2 / 3)], g0\<lparr>npos := 2\<rparr>)"
    by (simp add: evolve_values_def stdv_of_def randn_def Lc_def g0_def upt_rec)
  have w: "index_put (weight Lc) [0, 1] [sqrt (2 / 3), 2 * sqrt (2 / 3)] = Inr ?w"
    by (simp add: index_put_def Lc_def)
  have s: "sample_new_locs (Lc\<lparr>weight := ?w\<rparr>) 2 (g0\<lparr>npos := 2\<rparr>)
      = Inr ([(2, 0), (2, 1), (1, 2)], g0\<lparr>npos := 2, ipos := 6\<rparr>)"
    by (simp add: sample_new_locs_def Lc_def g0_def randint_def py_int_def upt_rec)
  have g: "grow_connections (Lc\<lparr>weight := ?w\<rparr>) (Some [0, 1]) (g0\<lparr>npos := 2\<rparr>)
      = Some (Inr (Lc\<lparr>weight := ?w,
                       connections := Some [(2, 0), (2, 1), (0, 1), (1, 1), (0, 2)]\<rparr>,
                   g0\<lparr>npos := 2, ipos := 6\<rparr>))"
    using generate_connections_done [OF s]
    by (simp add: grow_connections_def) (simp add: Lc_def index_put_def)
  have z: "generate_zmap (Lc\<lparr>weight := ?w,
                       connections := Some [(2, 0), (2, 1), (0, 1), (1, 1), (0, 2)]\<rparr>)
      = Inr (Lc_evolved\<lparr>weight := ?w\<rparr>)"
    by (simp add: generate_zmap_def Lc_def Lc_evolved_def fan_in_def float32_round_def upt_rec)
  show ?thesis
    using i v w g z by (simp add: evolve_connections_def)
qed

lemma Lc_zero: "zero_connections Lc = Inr Lz"
  using Lc_marks by (simp add: zero_connections_def kill_parameters_def index_put_def Lz_def) (simp add: Lc_def)

lemma Lz_evolve:
  "evolve_connections Lz False g0 = Some (Inr (Lc_evolved\<lparr>marked_indices := Some [0, 1]\<rparr>, g0\<lparr>ipos := 6\<rparr>))"
proof -
  have i: "evolve_indices Lz = Inr [0, 1]"
    by (simp add: evolve_indices_def Lz_def)
  have w: "index_put (weight Lz) [0, 1] [0, 0] = Inr [0, 0, 3, 4, -1]"
    by (simp add: index_put_def Lz_def)
  have s: "sample_new_locs (Lz\<lparr>weight := [0, 0, 3, 4, -1]\<rparr>) 2 g0
      = Inr ([(2, 0), (2, 1), (1, 2)], g0\<lparr>ipos := 6\<rparr>)"
    by (simp add: sample_new_locs_def Lz_def Lc_def g0_def randint_def py_int_def upt_rec)
  have g: "grow_connections (Lz\<lparr>weight := [0, 0, 3, 4, -1]\<rparr>) (Some [0, 1]) g0
      = Some (Inr (Lz\<lparr>weight := [0, 0, 3, 4, -1],
                       connections := Some [(2, 0), (2, 1), (0, 1), (1, 1), (0, 2)]\<rparr>, g0\<lparr>ipos := 6\<rparr>))"
    using generate_connections_done [OF s]
    by (simp add: grow_connections_def) (simp add: Lz_def Lc_def index_put_def)
  have z: "generate_zmap (Lz\<lparr>weight := [0, 0, 3, 4, -1],
                       connections := Some [(2, 0), (2, 1), (0, 1), (1, 1), (0, 2)]\<rparr>)
      = Inr (Lc_evolved\<lparr>marked_indices := Some [0, 1]\<rparr>)"
    by (simp add: generate_zmap_def Lz_def Lc_def Lc_evolved_def fan_in_def float32_round_def upt_rec)
  show ?thesis
    using i w g z by (simp add: evolve_connections_def evolve_values_def)
qed


lemma Lc_no_five_pairs: "generate_connections Lc 5 g \<noteq> Some (Inr (conns, g'))"
proof
  assume "generate_connections Lc 5 g = Some (Inr (conns, g'))"
  then have f: "fresh_pairs Lc 5 conns" by (rule generate_connections_Inr)
  then have d: "distinct conns" "length conns = 5" by (simp_all add: fresh_pairs_def)
  have u: "in_use Lc = {(0, 0), (1, 0), (0, 1), (1, 1), (0, 2)}"
    by (simp add: in_use_def Lc_def)
  have r: "\<forall>p \<in> set conns. p \<notin> in_use Lc \<and> fst p < 3 \<and> snd p < 3"
    using f by (simp add: fresh_pairs_def Lc_def)
  have "p \<in> {(2, 0), (2, 1), (2, 2), (1, 2)}" if "p \<in> set conns" for p
  proof -
    obtain a b where p: "p = (a, b)" by (cases p)
    from r that have ab: "a < 3" "b < 3" and n: "(a, b) \<notin> in_use Lc" by (auto simp: p)
    from ab have "a = 0 \<or> a = 1 \<or> a = 2" "b = 0 \<or> b = 1 \<or> b = 2" by linarith+
    with n show ?thesis unfolding p u by (elim disjE) simp_all
  qed
  then have "set conns \<subseteq> {(2, 0), (2, 1), (2, 2), (1, 2)}" by blast
  then have "card (set conns) \<le> card {(2, 0), (2, 1), (2, 2), (1 :: nat, 2 :: nat)}"
    by (intro card_mono) simp_all
  also have "\<dots> \<le> 4" by (simp add: card_insert_if)
  finally show False using d by (simp add: distinct_card)
qed

lemma Linit_grown:
  "SETLayer_init 3 3 11 (Some (4/9)) (1/2) with_bias g0
     = Some (reset_parameters
         \<lparr>indim = 3, outdim = 3, epsilon = 11, zeta = 1/2, sparsity = 4/9, n_params = 5,
          marked_indices = None,
          connections = Some [(2, 1), (2, 2), (1, 0), (1, 2), (2, 0)],
          zmap = [[2, 4], [0, 5], [1, 3]],
          weight = replicate 5 0,
          bias = (if with_bias then Some (replicate 3 0) else None)\<rparr> (g0\<lparr>ipos := 14\<rparr>))"
proof -
  let ?self0 = "\<lparr>indim = 3, outdim = 3, epsilon = 11, zeta = 1/2, sparsity = 4/9, n_params = 5,
          marked_indices = None, connections = None, zmap = [], weight = [], bias = None\<rparr>"
  have n: "py_int (real_of_int (3 * 3) * (1 - 4/9)) = 5" by (simp add: py_int_def)
  have m: "py_int (real_of_int 5 * 1.5) = 7" by (simp add: py_int_def)
  have u: "[0..<7] = [0, 1, 2, 3, 4, 5, 6]" by (simp add: upt_rec)
  have r1: "randint 3 7 g0 = Inr ([2, 2, 1, 0, 1, 2, 0], g0\<lparr>ipos := 7\<rparr>)"
    by (simp add: randint_def g0_def u)
  have r2: "randint 3 7 (g0\<lparr>ipos := 7\<rparr>) = Inr ([1, 2, 0, 1, 2, 0, 1], g0\<lparr>ipos := 14\<rparr>)"
    by (simp add: randint_def g0_def u)
  have s: "sample_new_locs ?self0 5 g0
      = Inr ([(2, 1), (2, 2), (1, 0), (1, 2), (2, 0), (0, 1)], g0\<lparr>ipos := 14\<rparr>)"
    unfolding sample_new_locs_def Let_def m by (simp add: r1 r2)
  have c: "generate_connections ?self0 5 g0
      = Some (Inr ([(2, 1), (2, 2), (1, 0), (1, 2), (2, 0)], g0\<lparr>ipos := 14\<rparr>))"
    using generate_connections_done [OF s] by simp
  have z: "generate_zmap (?self0\<lparr>connections := Some [(2, 1), (2, 2), (1, 0), (1, 2), (2, 0)]\<rparr>)
      = Inr (?self0\<lparr>connections := Some [(2, 1), (2, 2), (1, 0), (1, 2), (2, 0)],
                     zmap := [[2, 4], [0, 5], [1, 3]]\<rparr>)"
    by (simp add: generate_zmap_def fan_in_def float32_round_def upt_rec)
  show ?thesis
    using n c z by (simp add: SETLayer_init_def derive_sparsity_def grow_connections_def)
qed

lemma Linit_run:
  "SETLayer_init 3 3 11 (Some (4/9)) (1/2) True g0 = Some (Inr (Linit, g0\<lparr>ipos := 14, npos := 8\<rparr>))"
  unfolding Linit_grown
  by (simp add: reset_parameters_def stdv_of_def randn_def g0_def Linit_def upt_rec)

lemma Linit_run_no_bias:
  "SETLayer_init 3 3 11 (Some (4/9)) (1/2) False g0
     = Some (Inr (Linit\<lparr>bias := None\<rparr>, g0\<lparr>ipos := 14, npos := 5\<rparr>))"
  unfolding Linit_grown
  by (simp add: reset_parameters_def stdv_of_def randn_def g0_def Linit_def upt_rec)

lemma count_parity:
  "length (filter (\<lambda>s. s mod 2 = Suc 0) [0..<n]) = n div 2"
  "length (filter (\<lambda>s. s mod 2 = 0) [0..<n]) = (n + 1) div 2"
  by (induction n) (auto simp: mod_Suc, presburger+)

lemma fan_in_alternating:
  "fan_in (map (\<lambda>s. (s, s mod 2)) [0..<n]) i = filter (\<lambda>s. s mod 2 = i) [0..<n]"
  unfolding fan_in_def by (rule filter_cong) simp_all

lemma Cbig_props:
  "length Cbig = 16777217" "distinct Cbig"
  "\<forall>p \<in> set Cbig. fst p < 16777217 \<and> snd p < 2"
  "length (fan_in Cbig 0) = 8388609" "length (fan_in Cbig (Suc 0)) = 8388608"
proof -
  show "length Cbig = 16777217" by (simp add: Cbig_def)
  show "distinct Cbig" by (simp add: Cbig_def distinct_map inj_on_def)
  show "\<forall>p \<in> set Cbig. fst p < 16777217 \<and> snd p < 2" by (auto simp: Cbig_def)
  show "length (fan_in Cbig 0) = 8388609"
    unfolding Cbig_def fan_in_alternating by (simp add: count_parity(2))
  show "length (fan_in Cbig (Suc 0)) = 8388608"
    unfolding Cbig_def fan_in_alternating using count_parity(1) [of 16777217] by simp
qed

lemma Cbig_max_fan_in: "max_fan_in Cbig 2 = 8388609"
proof -
  have "{0..<2::nat} = {0, 1}" by auto
  then show ?thesis by (simp add: max_fan_in_def Cbig_props)
qed

section \<open>The claims\<close>

subsection \<open>C1: the connection table stays in order\<close>

text \<open>
  Claim C1. Call a layer's connection table in order when it has exactly \<open>n_params\<close>
  entries, no pair twice, and every pair within \<open>[0, indim) \<times> [0, outdim)\<close>. Every layer
  that \<^verbatim>\<open>__init__\<close> returns has its table in order, and every \<^verbatim>\<open>evolve_connections\<close>
  call that returns takes a table in order to a table in order.
\<close>

theorem connections_invariant:
  "(SETLayer_init i d eps sp zt b g = Some (Inr (self, g')) \<longrightarrow> connections_ok self) \<and>
   (connections_ok self \<and> evolve_connections self init g = Some (Inr (self', g')) \<longrightarrow>
      connections_ok self')"
  using SETLayer_init_connections_ok evolve_connections_ok by blast

theorem connections_invariant_witness:
  "SETLayer_init 3 3 11 (Some (4/9)) (1/2) True g0 = Some (Inr (Linit, g0\<lparr>ipos := 14, npos := 8\<rparr>)) \<and>
   connections_ok Linit \<and>
   connections_ok Lc \<and>
   evolve_connections Lc False g0 = Some (Inr (Lc_evolved, g0\<lparr>ipos := 6\<rparr>)) \<and>
   connections_ok Lc_evolved"
proof -
  have "connections_ok Linit"
    using connections_invariant [of 3 3 11 "Some (4/9)" "1/2" True g0 Linit "g0\<lparr>ipos := 14, npos := 8\<rparr>"]
      Linit_run by simp
  moreover have "connections_ok Lc_evolved"
    using connections_invariant [of _ _ _ _ _ _ g0 Lc "g0\<lparr>ipos := 6\<rparr>" False Lc_evolved]
      Lc_connections_ok Lc_evolve_False by simp
  ultimately show ?thesis using Linit_run Lc_connections_ok Lc_evolve_False by simp
qed

subsection \<open>C2: the value of \<^verbatim>\<open>forward\<close>\<close>

text \<open>
  Claim C2 fails on the source for a layer built with \<^verbatim>\<open>bias=False\<close>: line 235 adds
  \<^verbatim>\<open>self.bias\<close>, which is then \<^verbatim>\<open>None\<close>, and Python raises a \<^verbatim>\<open>TypeError\<close>, where
  the claim promises the plain sums. \<^verbatim>\<open>reset_parameters\<close> does test
  \<^verbatim>\<open>self.bias is not None\<close>. (With a bias, lemma \<open>forward_correct\<close> gives the claimed
  value.)
\<close>

theorem forward_without_bias:
  "SETLayer_init 3 3 11 (Some (4/9)) (1/2) False g0
     = Some (Inr (Linit\<lparr>bias := None\<rparr>, g0\<lparr>ipos := 14, npos := 5\<rparr>)) \<and>
   forward (Linit\<lparr>bias := None\<rparr>) [[1, 2, 3]] = Inl TypeError"
  using Linit_run_no_bias by (simp add: forward_def gather_def broadcast_def Linit_def)

subsection \<open>C3: how many slots are marked, and which\<close>




subsection \<open>C4: what an evolution step changes\<close>

text \<open>
  Claim C4. Let \<open>ix\<close> be the slots a completed \<^verbatim>\<open>evolve_connections(init)\<close> works on
  (the stored marked set, or the result of \<^verbatim>\<open>mark_connections\<close>). The weight array and
  the connection table keep their lengths; outside \<open>ix\<close> both are unchanged, and so is the
  bias. Every slot of \<open>ix\<close> receives a pair that was not in the table before the call. With
  \<open>init = False\<close> its weight becomes zero; with \<open>init = True\<close> it becomes a standard
  normal sample times \<open>sqrt (2 / indim)\<close>, the sample of its position in \<open>ix\<close>. The
  \<^verbatim>\<open>zmap\<close> of the result is the table \<^verbatim>\<open>generate_zmap\<close> builds from the new
  connections. (That a sample is normally distributed and independent of the others is a
  property of \<^verbatim>\<open>torch.randn\<close>, represented here by the tape \<open>normals\<close>.)
\<close>

theorem evolve_connections_frame:
  assumes "evolve_connections self init g = Some (Inr (self', g'))"
  shows "\<exists>ix c c'.
     evolve_indices self = Inr ix \<and> connections self = Some c \<and> connections self' = Some c' \<and>
     length (weight self') = length (weight self) \<and> length c' = length c \<and>
     (\<forall>i \<in> set ix. i < length (weight self) \<and> i < length c) \<and>
     (\<forall>i. i \<notin> set ix \<longrightarrow> weight self' ! i = weight self ! i \<and> c' ! i = c ! i) \<and>
     (\<forall>i \<in> set ix. c' ! i \<notin> set c) \<and>
     (\<not> init \<longrightarrow> (\<forall>i \<in> set ix. weight self' ! i = 0)) \<and>
     (init \<longrightarrow> (\<forall>i \<in> set ix. \<exists>j < length ix. ix ! j = i \<and>
        weight self' ! i = normals g (npos g + j) * sqrt (2 / real_of_int (indim self)))) \<and>
     (init \<and> distinct ix \<longrightarrow> (\<forall>j < length ix.
        weight self' ! (ix ! j) = normals g (npos g + j) * sqrt (2 / real_of_int (indim self)))) \<and>
     bias self' = bias self \<and> generate_zmap self' = Inr self'"
proof -
  from assms obtain ix vs g1 w self1 where
    e: "evolve_indices self = Inr ix"
    "evolve_values self init (length ix) g = Inr (vs, g1)"
    "index_put (weight self) ix vs = Inr w"
    "grow_connections (self\<lparr>weight := w\<rparr>) (Some ix) g1 = Some (Inr (self1, g'))"
    "generate_zmap self1 = Inr self'"
    by (rule evolve_connections_Inr)
  from e(4) obtain conns c c' where
    gr: "generate_connections (self\<lparr>weight := w\<rparr>) (int (length ix)) g1 = Some (Inr (conns, g'))"
    "connections (self\<lparr>weight := w\<rparr>) = Some c" "index_put c ix conns = Inr c'"
    "self1 = self\<lparr>weight := w, connections := Some c'\<rparr>"
    by (rule grow_connections_Some_Inr)
  have c: "connections self = Some c" using gr(2) by simp
  note z = generate_zmap_frame [OF e(5)]
  have w': "weight self' = w" and c': "connections self' = Some c'" and b: "bias self' = bias self"
    using z(1,2,3) by (simp_all add: gr(4))
  note iw = index_put_Inr [OF e(3)]
  note ic = index_put_Inr [OF gr(3)]
  have "fresh_pairs (self\<lparr>weight := w\<rparr>) (int (length ix)) conns"
    using gr(1) by (rule generate_connections_Inr)
  then have fresh: "\<forall>p \<in> set conns. p \<notin> set c"
    by (simp add: fresh_pairs_def in_use_Some [OF gr(2)])
  have new_pair: "\<forall>i \<in> set ix. c' ! i \<notin> set c"
  proof
    fix i assume "i \<in> set ix"
    from ic(5) [OF this] ic(3) obtain j where "j < length conns" "c' ! i = conns ! j" by auto
    with fresh show "c' ! i \<notin> set c" by simp
  qed
  have zero: "\<forall>i \<in> set ix. weight self' ! i = 0" if "\<not> init"
  proof
    fix i assume "i \<in> set ix"
    from iw(5) [OF this] obtain j where j: "j < length ix" "w ! i = vs ! j" by auto
    from e(2) that have "vs = replicate (length ix) 0" by (simp add: evolve_values_False)
    with j show "weight self' ! i = 0" by (simp add: w')
  qed
  have vs: "vs = map (\<lambda>j. normals g (npos g + j) * sqrt (2 / real_of_int (indim self))) [0..<length ix]"
    if init using e(2) that by (auto dest: evolve_values_True)
  have draw: "\<forall>i \<in> set ix. \<exists>j < length ix. ix ! j = i \<and>
        weight self' ! i = normals g (npos g + j) * sqrt (2 / real_of_int (indim self))" if init
  proof
    fix i assume "i \<in> set ix"
    from iw(5) [OF this] obtain j where j: "j < length ix" "ix ! j = i" "w ! i = vs ! j" by auto
    then show "\<exists>j < length ix. ix ! j = i \<and>
        weight self' ! i = normals g (npos g + j) * sqrt (2 / real_of_int (indim self))"
      using vs [OF that] by (auto simp: w')
  qed
  have own: "\<forall>j < length ix.
        weight self' ! (ix ! j) = normals g (npos g + j) * sqrt (2 / real_of_int (indim self))"
    if "init \<and> distinct ix"
  proof (intro allI impI)
    fix j assume j: "j < length ix"
    from that have "w ! (ix ! j) = vs ! j" using index_put_distinct_nth [OF e(3) _ j] by simp
    then show "weight self' ! (ix ! j) = normals g (npos g + j) * sqrt (2 / real_of_int (indim self))"
      using vs that j by (simp add: w')
  qed
  have "evolve_indices self = Inr ix \<and> connections self = Some c \<and> connections self' = Some c' \<and>
     length (weight self') = length (weight self) \<and> length c' = length c \<and>
     (\<forall>i \<in> set ix. i < length (weight self) \<and> i < length c) \<and>
     (\<forall>i. i \<notin> set ix \<longrightarrow> weight self' ! i = weight self ! i \<and> c' ! i = c ! i) \<and>
     (\<forall>i \<in> set ix. c' ! i \<notin> set c) \<and>
     (\<not> init \<longrightarrow> (\<forall>i \<in> set ix. weight self' ! i = 0)) \<and>
     (init \<longrightarrow> (\<forall>i \<in> set ix. \<exists>j < length ix. ix ! j = i \<and>
        weight self' ! i = normals g (npos g + j) * sqrt (2 / real_of_int (indim self)))) \<and>
     (init \<and> distinct ix \<longrightarrow> (\<forall>j < length ix.
        weight self' ! (ix ! j) = normals g (npos g + j) * sqrt (2 / real_of_int (indim self)))) \<and>
     bias self' = bias self \<and> generate_zmap self' = Inr self'"
    using e(1) c c' iw(1,2,4) ic(1,2,4) new_pair zero draw own b generate_zmap_idem [OF e(5)]
    by (simp add: w')
  then show ?thesis by blast
qed

theorem evolve_connections_frame_witness:
  "evolve_connections Lc False g0 = Some (Inr (Lc_evolved, g0\<lparr>ipos := 6\<rparr>)) \<and>
   evolve_indices Lc = Inr [0, 1] \<and>
   weight Lc_evolved ! 0 = 0 \<and> weight Lc_evolved ! 2 = weight Lc ! 2 \<and>
   bias Lc_evolved = bias Lc \<and> generate_zmap Lc_evolved = Inr Lc_evolved \<and>
   evolve_connections Lc True g0
     = Some (Inr (Lc_evolved\<lparr>weight := [sqrt (2 / 3), 2 * sqrt (2 / 3), 3, 4, -1]\<rparr>,
                  g0\<lparr>npos := 2, ipos := 6\<rparr>)) \<and>
   weight (Lc_evolved\<lparr>weight := [sqrt (2 / 3), 2 * sqrt (2 / 3), 3, 4, -1]\<rparr>) ! 1
     = normals g0 (npos g0 + 1) * sqrt (2 / real_of_int (indim Lc))"
proof -
  have i: "evolve_indices Lc = Inr [0, 1]"
    using Lc_marks by (simp add: evolve_indices_def Lc_def)
  from evolve_connections_frame [OF Lc_evolve_False] i
  have f: "weight Lc_evolved ! 0 = 0" "weight Lc_evolved ! 2 = weight Lc ! 2"
    "bias Lc_evolved = bias Lc" "generate_zmap Lc_evolved = Inr Lc_evolved"
    by auto
  from evolve_connections_frame [OF Lc_evolve_True] i
  have "\<forall>j < length [0, 1 :: nat].
      weight (Lc_evolved\<lparr>weight := [sqrt (2 / 3), 2 * sqrt (2 / 3), 3, 4, -1]\<rparr>) ! ([0, 1] ! j)
        = normals g0 (npos g0 + j) * sqrt (2 / real_of_int (indim Lc))"
    by auto
  then have "weight (Lc_evolved\<lparr>weight := [sqrt (2 / 3), 2 * sqrt (2 / 3), 3, 4, -1]\<rparr>) ! 1
      = normals g0 (npos g0 + 1) * sqrt (2 / real_of_int (indim Lc))"
    by (metis One_nat_def length_Cons less_Suc_eq list.size(3) nth_Cons_0 nth_Cons_Suc lessI)
  with f i Lc_evolve_False Lc_evolve_True show ?thesis by simp
qed

subsection \<open>C5: the table built by \<^verbatim>\<open>generate_zmap\<close>\<close>

text \<open>
  Claim C5 fails on the source once a layer has more than \<open>2\<^sup>2\<^sup>4\<close> weight slots. The
  padding value goes through a \<^verbatim>\<open>float32\<close> tensor, which cannot hold every integer
  above \<open>2\<^sup>2\<^sup>4 = 16777216\<close>. A layer built by \<^verbatim>\<open>SETLayer(16777217, 2, sparsity=0.5)\<close>
  has \<open>n_params = 16777217\<close>; with the connections \<open>(s, s mod 2)\<close> output 1 has one
  connection fewer than output 0, and the one padded cell of its row holds \<open>16777216\<close>,
  the index of the last real weight slot, instead of \<open>n_params\<close>. For layers of at most
  \<open>2\<^sup>2\<^sup>4\<close> slots the three parts of the claim hold (lemma \<open>generate_zmap_correct\<close>).
\<close>

theorem generate_zmap_padding_rounded:
  "n_params Lbig = 16777217 \<and> connections Lbig = Some Cbig \<and>
   int (length Cbig) = n_params Lbig \<and> distinct Cbig \<and>
   length (fan_in Cbig 1) = 8388608 \<and>
   (\<exists>self'. generate_zmap Lbig = Inr self' \<and>
      length (zmap self' ! 1) = 8388609 \<and> zmap self' ! 1 ! 8388608 = 16777216)"
proof -
  obtain self' where g: "generate_zmap Lbig = Inr self'"
    by (simp add: generate_zmap_def Lbig_def Let_def)
  have c: "connections Lbig = Some Cbig" and o: "0 < outdim Lbig" "nat (outdim Lbig) = 2"
    and n: "nat (n_params Lbig) = 16777217"
    by (simp_all add: Lbig_def)
  have row: "zmap self' ! 1 = fan_in Cbig 1 @ [16777216]"
    using generate_zmap_rows(2) [OF g c o(1), of 1]
    by (simp add: o(2) n Cbig_max_fan_in Cbig_props float32_round_def Let_def)
  have "length (zmap self' ! 1) = 8388609" using row Cbig_props(5) by simp
  moreover have "zmap self' ! 1 ! 8388608 = 16777216"
    using row Cbig_props(5) by (simp add: nth_append)
  moreover have "length (fan_in Cbig 1) = 8388608" using Cbig_props(5) by simp
  ultimately show ?thesis
    using g c Cbig_props(1,2) by (simp add: Lbig_def)
qed

subsection \<open>C6: the marked set after an evolution step\<close>

text \<open>
  Claim C6 fails on the source: \<^verbatim>\<open>evolve_connections\<close> never assigns
  \<^verbatim>\<open>self.marked_indices\<close>. After \<^verbatim>\<open>zero_connections\<close> has stored a marked set, a
  completed \<^verbatim>\<open>evolve_connections\<close> leaves it in place, and the next call works on the
  stored slots again although \<^verbatim>\<open>mark_connections\<close> would now select other slots (here:
  none).
\<close>

theorem evolve_keeps_marked_indices:
  "zero_connections Lc = Inr Lz \<and>
   evolve_connections Lz False g0
     = Some (Inr (Lc_evolved\<lparr>marked_indices := Some [0, 1]\<rparr>, g0\<lparr>ipos := 6\<rparr>)) \<and>
   marked_indices (Lc_evolved\<lparr>marked_indices := Some [0, 1]\<rparr>) \<noteq> None \<and>
   evolve_indices (Lc_evolved\<lparr>marked_indices := Some [0, 1]\<rparr>) = Inr [0, 1] \<and>
   mark_connections (Lc_evolved\<lparr>marked_indices := Some [0, 1]\<rparr>) = Inr []"
proof -
  have "mark_connections (Lc_evolved\<lparr>marked_indices := Some [0, 1]\<rparr>) = Inr []"
    by (simp add: mark_connections_eq Lc_evolved_def Lc_def topk_def py_int_def marked_by_def upt_rec)
  then show ?thesis
    using Lc_zero Lz_evolve by (simp add: evolve_indices_def)
qed

subsection \<open>C7: sparsity, parameter count and bad configurations\<close>




subsection \<open>C8: the width of the input of \<^verbatim>\<open>forward\<close>\<close>

text \<open>
  Claim C8, as amended. \<^verbatim>\<open>forward\<close> does not compare the width of its input with
  \<open>indim\<close>. On a layer with a bias whose tables are consistent, it succeeds when every
  row has all the input columns that the connections read, and it fails with torch's
  \<^verbatim>\<open>IndexError\<close> when some row lacks one of them. So it succeeds on every input at
  least \<open>indim\<close> wide, the width \<open>indim\<close> included.
\<close>

theorem forward_width:
  assumes "evaluable self" "connections self = Some c" "bias self = Some b"
  shows "((\<forall>row \<in> set x. \<forall>p \<in> set c. fst p < length row) \<longrightarrow>
            (\<exists>y. forward self x = Inr y \<and> length y = length x)) \<and>
         ((\<exists>row \<in> set x. \<exists>p \<in> set c. length row \<le> fst p) \<longrightarrow>
            forward self x = Inl IndexError) \<and>
         ((\<forall>row \<in> set x. indim self \<le> int (length row)) \<longrightarrow>
            (\<exists>y. forward self x = Inr y \<and> length y = length x))"
proof (intro conjI impI)
  assume "\<forall>row \<in> set x. \<forall>p \<in> set c. fst p < length row"
  from evaluable_forward [OF assms this]
  show "\<exists>y. forward self x = Inr y \<and> length y = length x" by simp
next
  assume "\<exists>row \<in> set x. \<exists>p \<in> set c. length row \<le> fst p"
  then show "forward self x = Inl IndexError"
    using forward_IndexError [OF assms(2)] by blast
next
  assume wide: "\<forall>row \<in> set x. indim self \<le> int (length row)"
  from assms(1,2) have "\<forall>p \<in> set c. int (fst p) < indim self"
    by (auto simp: evaluable_def connections_ok_def)
  with wide have "\<forall>row \<in> set x. \<forall>p \<in> set c. fst p < length row" by fastforce
  from evaluable_forward [OF assms this]
  show "\<exists>y. forward self x = Inr y \<and> length y = length x" by simp
qed

theorem forward_width_witness:
  "evaluable Lc \<and> connections Lc = Some [(0, 0), (1, 0), (0, 1), (1, 1), (0, 2)] \<and>
   bias Lc = Some [0, 0, 0] \<and> indim Lc \<le> int (length [10, 100, 1000 :: real]) \<and>
   (\<exists>y. forward Lc [[10, 100, 1000]] = Inr y \<and> length y = 1) \<and>
   forward Lc [[10]] = Inl IndexError"
proof -
  have c: "connections Lc = Some [(0, 0), (1, 0), (0, 1), (1, 1), (0, 2)]"
    and b: "bias Lc = Some [0, 0, 0]" and i: "indim Lc = 3"
    by (simp_all add: Lc_def)
  note t = forward_width [OF Lc_evaluable c b]
  have "\<exists>y. forward Lc [[10, 100, 1000]] = Inr y \<and> length y = length [[10, 100, 1000 :: real]]"
    using t [of "[[10, 100, 1000]]"] i by simp
  moreover have "forward Lc [[10]] = Inl IndexError"
    using t [of "[[10]]"] by simp
  ultimately show ?thesis using Lc_evaluable c b i by simp
qed

text \<open>
  The claim as it was stated fails: the layer \<open>Lc\<close> has \<open>indim = 3\<close>, and \<^verbatim>\<open>forward\<close>
  returns a result on rows of width 4 (the extra column is ignored) and on rows of
  width 2 (no connection of \<open>Lc\<close> reads column 2).
\<close>

theorem forward_width_counterexample:
  "int (length [10, 100, 1000, 7 :: real]) \<noteq> indim Lc \<and>
   forward Lc [[10, 100, 1000, 7]] = Inr [[210, 430, -10]] \<and>
   int (length [10, 100 :: real]) \<noteq> indim Lc \<and>
   forward Lc [[10, 100]] = Inr [[210, 430, -10]]"
  by (simp add: forward_def gather_def broadcast_def Lc_def)

subsection \<open>C9: termination of connection generation\<close>




subsection \<open>C10: zero weights are never marked\<close>



end
